theory Spec2Isabelle
  imports Complex_Main "HOL-Library.Sublist"
begin

section \<open>Data model (shared types)\<close>

text \<open>
  Identifiers are produced by \<^verbatim>\<open>uuidv4()\<close> in the source. They are modelled as natural
  numbers drawn from a supply (a counter in the state): the only property of a UUID the
  program relies on is that a newly generated one differs from all earlier ones.
\<close>

type_synonym uuid = nat

datatype EvidenceType = Image | Video | Audio | Text | Document

datatype CaseStatus = Pending | Running | Completed | Error

record FrameDerived =
  fd_summary :: "string option"
  fd_tags :: "string list option"

text \<open>
  \<^verbatim>\<open>timeSeconds\<close> is a JavaScript number. Frames are created only by
  \<^verbatim>\<open>extractFrames\<close>, as \<^verbatim>\<open>index * intervalSeconds\<close> with the interval 1 passed by
  \<^verbatim>\<open>processEvidence\<close>, so the values are natural numbers.
\<close>

record FrameEvidence =
  fr_id :: uuid
  fr_parentEvidenceId :: uuid
  fr_timeSeconds :: nat
  fr_storageUrl :: string
  fr_derived :: "FrameDerived option"

section \<open>Strings and numbers of the JavaScript runtime\<close>

text \<open>
  Strings are character lists. The decorative emoji that open some log and progress texts
  in the source are outside the 8-bit character type and are left out of the texts below;
  no decision of the program reads them.
\<close>

definition digit_char :: "nat \<Rightarrow> char" where
  "digit_char d = ''0123456789'' ! d"

function str_of_nat :: "nat \<Rightarrow> string" where
  "str_of_nat n = (if n < 10 then [digit_char n]
                   else str_of_nat (n div 10) @ [digit_char (n mod 10)])"
  by pat_completeness auto
termination
  by (relation "measure id") auto

declare str_of_nat.simps [simp del]

text \<open>\<^verbatim>\<open>s.includes(t)\<close>: does \<open>t\<close> occur in \<open>s\<close> as a contiguous substring?\<close>

fun str_includes :: "string \<Rightarrow> string \<Rightarrow> bool" where
  "str_includes [] t = (t = [])"
| "str_includes (c # cs) t = (prefix t (c # cs) \<or> str_includes cs t)"

text \<open>\<^verbatim>\<open>s.substring(0, n)\<close> is \<open>take n s\<close>; \<^verbatim>\<open>xs.join(sep)\<close>:\<close>

fun join :: "string \<Rightarrow> string list \<Rightarrow> string" where
  "join sep [] = []"
| "join sep [x] = x"
| "join sep (x # y # ys) = x @ sep @ join sep (y # ys)"

text \<open>
  \<^verbatim>\<open>a || b\<close> on an optional string: the left operand unless it is undefined or empty.
\<close>

fun str_or :: "string option \<Rightarrow> string \<Rightarrow> string" where
  "str_or None d = d"
| "str_or (Some s) d = (if s = [] then d else s)"

text \<open>Truthiness of an optional string (\<^verbatim>\<open>if (e.derived?.summary)\<close>).\<close>

fun truthy :: "string option \<Rightarrow> bool" where
  "truthy None = False"
| "truthy (Some s) = (s \<noteq> [])"

text \<open>
  The numbers the heat map computes with. \<^verbatim>\<open>Math.max()\<close> of no arguments is
  \<open>-Infinity\<close>, and \<open>0 * -Infinity\<close> is \<open>NaN\<close>; every other number in that code is finite
  and is modelled by a real.
\<close>

datatype jsnumber = Fin real | NegInfinity | NaN

fun js_max :: "jsnumber \<Rightarrow> jsnumber \<Rightarrow> jsnumber" where
  "js_max NaN y = NaN"
| "js_max x NaN = NaN"
| "js_max NegInfinity y = y"
| "js_max x NegInfinity = x"
| "js_max (Fin a) (Fin b) = Fin (max a b)"

text \<open>\<^verbatim>\<open>Math.max(...xs)\<close> for finite arguments.\<close>

definition Math_max :: "real list \<Rightarrow> jsnumber" where
  "Math_max xs = foldl js_max NegInfinity (map Fin xs)"

fun js_div :: "jsnumber \<Rightarrow> nat \<Rightarrow> jsnumber" where
  "js_div (Fin a) k = Fin (a / real k)"
| "js_div NegInfinity k = NegInfinity"
| "js_div NaN k = NaN"

text \<open>\<^verbatim>\<open>i * d\<close> for an index \<open>i\<close>.\<close>

fun js_times :: "nat \<Rightarrow> jsnumber \<Rightarrow> jsnumber" where
  "js_times i (Fin d) = Fin (real i * d)"
| "js_times i NegInfinity = (if i = 0 then NaN else NegInfinity)"
| "js_times i NaN = NaN"

text \<open>\<^verbatim>\<open>x >= y\<close> and \<^verbatim>\<open>x < y\<close> for a finite \<open>x\<close>: every comparison with \<open>NaN\<close> is false.\<close>

fun js_ge :: "real \<Rightarrow> jsnumber \<Rightarrow> bool" where
  "js_ge x (Fin y) = (x \<ge> y)"
| "js_ge x NegInfinity = True"
| "js_ge x NaN = False"

fun js_lt :: "real \<Rightarrow> jsnumber \<Rightarrow> bool" where
  "js_lt x (Fin y) = (x < y)"
| "js_lt x NegInfinity = False"
| "js_lt x NaN = False"

text \<open>
  \<^verbatim>\<open>a || b\<close> on optional numbers: the left operand unless it is undefined or 0.
\<close>

fun num_or :: "real option \<Rightarrow> real \<Rightarrow> real" where
  "num_or None d = d"
| "num_or (Some x) d = (if x = 0 then d else x)"

section \<open>Data model (entities of the analysis)\<close>

datatype Severity = Low | Medium | High

datatype ProgressStatus = StatusRunning | StatusCompleted | StatusError

record Derived =
  dv_transcript :: "string option"
  dv_frameIds :: "uuid list option"
  dv_summary :: "string option"
  dv_tags :: "string list option"
  dv_error :: "string option"
  dv_fullText :: "string option"
  dv_charCount :: "nat option"
  dv_truncated :: "bool option"
  dv_frameCount :: "nat option"
  dv_analyzedFrameCount :: "nat option"

definition emptyDerived :: Derived where
  "emptyDerived = \<lparr>dv_transcript = None, dv_frameIds = None, dv_summary = None, dv_tags = None,
     dv_error = None, dv_fullText = None, dv_charCount = None, dv_truncated = None,
     dv_frameCount = None, dv_analyzedFrameCount = None\<rparr>"

record EvidenceItem =
  ev_id :: uuid
  ev_caseId :: uuid
  ev_type :: EvidenceType
  ev_originalFilename :: string
  ev_storageUrl :: string
  ev_uploadedAt :: string
  ev_derived :: "Derived option"

record TimelineEvent =
  tl_id :: uuid
  tl_caseId :: uuid
  tl_label :: string
  tl_description :: string
  tl_startTime :: "real option"
  tl_endTime :: "real option"
  tl_confidence :: real
  tl_supportingEvidenceIds :: "string list"

record Contradiction =
  co_id :: uuid
  co_caseId :: uuid
  co_description :: string
  co_involvedEvidenceIds :: "string list"
  co_involvedWitnesses :: "string list"
  co_severity :: Severity

record Scenario =
  sc_id :: uuid
  sc_caseId :: uuid
  sc_name :: string
  sc_likelihood :: real
  sc_narrative :: string
  sc_supportingEvidenceIds :: "string list"
  sc_conflictingEvidenceIds :: "string list"
  sc_reconstructionImageIds :: "uuid list"
  sc_reasoning :: string
  sc_keyFindings :: "string list"
  sc_supportingEvidence :: "string list"
  sc_conflictingEvidence :: "string list"

record ReconstructionImage =
  ri_id :: uuid
  ri_caseId :: uuid
  ri_scenarioId :: uuid
  ri_viewpoint :: string
  ri_type :: string
  ri_storageUrl :: string
  ri_description :: string

record HeatmapSegment =
  hs_startTime :: jsnumber
  hs_endTime :: jsnumber
  hs_confidence :: real
  hs_contradictionScore :: real

record AnalysisReasoning =
  ar_fusion :: string
  ar_contradictions :: string
  ar_scenarios :: string

record EvidenceSummaryEntry =
  es_evidenceId :: uuid
  es_summary :: string
  es_tags :: "string list"
  es_processed :: bool

record CaseAnalysis =
  ca_caseId :: uuid
  ca_status :: CaseStatus
  ca_timeline :: "TimelineEvent list"
  ca_contradictions :: "Contradiction list"
  ca_scenarios :: "Scenario list"
  ca_missingEvidenceSuggestions :: "string list"
  ca_globalSummary :: string
  ca_heatmap :: "HeatmapSegment list"
  ca_reasoning :: AnalysisReasoning
  ca_evidenceSummaries :: "EvidenceSummaryEntry list"
  ca_reconstructions :: "ReconstructionImage list"

record AnalysisProgress =
  pr_step :: string
  pr_progress :: nat
  pr_reasoning :: "string option"
  pr_currentItem :: "string option"
  pr_status :: ProgressStatus
  pr_stepNumber :: "nat option"
  pr_totalSteps :: "nat option"

section \<open>Heat map (assembly stage of AnalysisOrchestrator.run)\<close>

text \<open>
  \<^verbatim>\<open>Math.max(...timeline.map(t => t.endTime || t.startTime || 0))\<close>, ten segments of width
  \<^verbatim>\<open>maxTime / segmentCount\<close>, and for each one the mean confidence of the events that start
  in it (0.5 if none) and \<^verbatim>\<open>contradictionsInSegment.length * 0.2\<close>, where the filter of the
  contradictions keeps every element (\<^verbatim>\<open>return true\<close>).
\<close>

definition eventTime :: "TimelineEvent \<Rightarrow> real" where
  "eventTime t = num_or (tl_endTime t) (num_or (tl_startTime t) 0)"

definition segmentCount :: nat where
  "segmentCount = 10"

definition heatmapSegment :: "TimelineEvent list \<Rightarrow> Contradiction list \<Rightarrow> jsnumber \<Rightarrow> nat
    \<Rightarrow> HeatmapSegment" where
  "heatmapSegment timeline contradictions segmentDuration i =
     (let startTime = js_times i segmentDuration;
          endTime = js_times (i + 1) segmentDuration;
          eventsInSegment = filter (\<lambda>t. js_ge (num_or (tl_startTime t) 0) startTime
                                        \<and> js_lt (num_or (tl_startTime t) 0) endTime) timeline;
          contradictionsInSegment = filter (\<lambda>c. True) contradictions
      in \<lparr>hs_startTime = startTime,
          hs_endTime = endTime,
          hs_confidence =
            (if length eventsInSegment > 0
             then foldl (\<lambda>sum e. sum + tl_confidence e) 0 eventsInSegment
                    / real (length eventsInSegment)
             else 0.5),
          hs_contradictionScore = real (length contradictionsInSegment) * 0.2\<rparr>)"

definition heatmapSegments :: "TimelineEvent list \<Rightarrow> Contradiction list \<Rightarrow> HeatmapSegment list" where
  "heatmapSegments timeline contradictions =
     (let maxTime = Math_max (map eventTime timeline);
          segmentDuration = js_div maxTime segmentCount
      in map (heatmapSegment timeline contradictions segmentDuration) [0..<segmentCount])"


section \<open>External collaborators\<close>

text \<open>
  What the program receives from outside is collected in an environment. Every external
  interaction (a file-system call, a call of the reasoning model, of the image model or of
  \<^verbatim>\<open>ffmpeg\<close>, reading the clock) is answered by a function of the number of interactions
  made so far (the \<open>tick\<close> of the world) and of the arguments of the call, so that the
  same call may be answered differently when it is repeated.

  A reply of the reasoning model is given in the form the client code distinguishes:
  the call throws; the text holds no \<^verbatim>\<open>{...}\<close>; the match does not parse
  (\<^verbatim>\<open>JSON.parse\<close> throws); the match parses. A parsed reply is taken to be typed as
  the interfaces \<^verbatim>\<open>GeminiSummary\<close>, \<^verbatim>\<open>GeminiFusionResult\<close>,
  \<^verbatim>\<open>GeminiContradictionResult\<close> and \<^verbatim>\<open>GeminiScenarioResult\<close> declare, each field
  optional; \<open>None\<close> stands for a field that is missing or falsy and, where the code tests
  \<^verbatim>\<open>Array.isArray\<close>, for one that is not an array.
\<close>

datatype 'p ModelReply =
    CallFails string
  | NoJson string
  | BadJson string string
  | Json string 'p

record SummaryJson =
  sj_summary :: "string option"
  sj_tags :: "string list option"
  sj_timeHint :: "string option"
  sj_reasoning :: "string option"

record GeminiSummary =
  gs_summary :: string
  gs_tags :: "string list"
  gs_timeHint :: "string option"
  gs_reasoning :: "string option"

record RawTimelineEvent =
  rt_label :: string
  rt_description :: string
  rt_startTime :: "real option"
  rt_endTime :: "real option"
  rt_confidence :: real
  rt_supportingEvidenceIds :: "string list"

record FusionJson =
  fj_timeline :: "RawTimelineEvent list option"
  fj_worldModel :: "string option"
  fj_reasoning :: "string option"

record GeminiFusionResult =
  fu_timeline :: "RawTimelineEvent list"
  fu_worldModel :: string
  fu_reasoning :: "string option"

record RawContradiction =
  rc_description :: string
  rc_involvedEvidenceIds :: "string list"
  rc_involvedWitnesses :: "string list"
  rc_severity :: Severity

record ContradictionJson =
  cj_contradictions :: "RawContradiction list option"
  cj_reasoning :: "string option"

record GeminiContradictionResult =
  gc_contradictions :: "RawContradiction list"
  gc_reasoning :: "string option"

record RawScenario =
  rs_name :: string
  rs_likelihood :: real
  rs_narrative :: string
  rs_supportingEvidenceIds :: "string list"
  rs_conflictingEvidenceIds :: "string list"
  rs_keyFindings :: "string list option"
  rs_supportingEvidence :: "string list option"
  rs_conflictingEvidence :: "string list option"
  rs_scenarioReasoning :: "string option"

record ScenarioJson =
  sn_scenarios :: "RawScenario list option"
  sn_reasoning :: "string option"

record GeminiScenarioResult =
  gn_scenarios :: "RawScenario list"
  gn_reasoning :: "string option"

text \<open>The entries \<^verbatim>\<open>{ evidence, summary, tags }\<close> the orchestrator hands to the model.\<close>

record EvidenceSummary =
  su_evidence :: EvidenceItem
  su_summary :: string
  su_tags :: "string list"

datatype Encoding = Binary | Utf8 | Latin1

text \<open>
  \<^verbatim>\<open>extractFrames\<close> rejects when \<^verbatim>\<open>ffprobe\<close> fails, when the duration is 0 or missing,
  when \<^verbatim>\<open>ffmpeg\<close> fails or when reading the frame directory fails; otherwise it finds a
  number of frame files.
\<close>

datatype FfmpegOutcome =
    ProbeFails string
  | NoDuration
  | RunFails string
  | FrameFiles nat

text \<open>
  The image model: an image from the first model, an image from the second model (each
  with the flag whether its MIME type includes \<^verbatim>\<open>png\<close>), or the placeholder (with the
  URL chosen from the fixed table).
\<close>

datatype ImageOutcome = Image4K bool | ImageFlash bool | ImagePlaceholder string

record Env =
  uploadsDir :: string
  pathJoin :: "string list \<Rightarrow> string"
  extnameLower :: "string \<Rightarrow> string"
  now :: "nat \<Rightarrow> string"
  fs_existsSync :: "nat \<Rightarrow> string \<Rightarrow> bool"
  fs_readFileSync :: "nat \<Rightarrow> string \<Rightarrow> Encoding \<Rightarrow> string + string"
  ffmpeg :: "nat \<Rightarrow> string \<Rightarrow> FfmpegOutcome"
  gemini_summarize :: "nat \<Rightarrow> EvidenceItem \<Rightarrow> string option \<Rightarrow> string option
     \<Rightarrow> SummaryJson ModelReply"
  gemini_transcribe :: "nat \<Rightarrow> string \<Rightarrow> string \<Rightarrow> string + string"
  gemini_fuse :: "nat \<Rightarrow> EvidenceSummary list \<Rightarrow> FusionJson ModelReply"
  gemini_contradictions :: "nat \<Rightarrow> TimelineEvent list \<Rightarrow> EvidenceSummary list \<Rightarrow> string list
     \<Rightarrow> ContradictionJson ModelReply"
  gemini_scenarios :: "nat \<Rightarrow> string \<Rightarrow> TimelineEvent list \<Rightarrow> Contradiction list
     \<Rightarrow> ScenarioJson ModelReply"
  gemini_image :: "nat \<Rightarrow> Scenario \<Rightarrow> string \<Rightarrow> ImageOutcome"

section \<open>The evidence store and the state of a run\<close>

text \<open>
  The four tables the run touches. A table is the list of its rows;
  \<open>st_evidence_items\<close> is kept in the order of the query
  (\<^verbatim>\<open>ORDER BY uploadedAt DESC\<close>), which no update of \<^verbatim>\<open>derived\<close> changes. The store is
  taken to be reliable: a statement on it does not throw.
\<close>

record Case =
  case_id :: uuid
  case_name :: string
  case_status :: CaseStatus
  case_updatedAt :: string

record AnalysisRow =
  row_caseId :: uuid
  row_analysis :: CaseAnalysis
  row_updatedAt :: string

record Store =
  st_cases :: "Case list"
  st_evidence_items :: "EvidenceItem list"
  st_frame_evidence :: "FrameEvidence list"
  st_case_analysis :: "AnalysisRow list"

record World =
  db :: Store
  nextUuid :: nat
  tick :: nat
  emitted :: "AnalysisProgress list"

definition uuidv4 :: "World \<Rightarrow> uuid \<times> World" where
  "uuidv4 w = (nextUuid w, w\<lparr>nextUuid := Suc (nextUuid w)\<rparr>)"

definition advance :: "World \<Rightarrow> World" where
  "advance w = w\<lparr>tick := Suc (tick w)\<rparr>"

definition emitProgress :: "AnalysisProgress \<Rightarrow> World \<Rightarrow> World" where
  "emitProgress p w = w\<lparr>emitted := emitted w @ [p]\<rparr>"

definition getEvidenceByCase :: "World \<Rightarrow> uuid \<Rightarrow> EvidenceItem list" where
  "getEvidenceByCase w caseId = filter (\<lambda>e. ev_caseId e = caseId) (st_evidence_items (db w))"

definition getFramesByEvidence :: "World \<Rightarrow> uuid \<Rightarrow> FrameEvidence list" where
  "getFramesByEvidence w evidenceId =
     sort_key fr_timeSeconds
       (filter (\<lambda>f. fr_parentEvidenceId f = evidenceId) (st_frame_evidence (db w)))"

text \<open>\<^verbatim>\<open>UPDATE evidence_items SET derived = ? WHERE id = ?\<close>\<close>

definition updateEvidenceDerived :: "uuid \<Rightarrow> Derived \<Rightarrow> World \<Rightarrow> World" where
  "updateEvidenceDerived evidenceId d w =
     w\<lparr>db := (db w)\<lparr>st_evidence_items :=
          map (\<lambda>e. if ev_id e = evidenceId then e\<lparr>ev_derived := Some d\<rparr> else e)
              (st_evidence_items (db w))\<rparr>\<rparr>"

text \<open>\<^verbatim>\<open>INSERT INTO frame_evidence ...\<close>; \<^verbatim>\<open>JSON.stringify(frame.derived || {})\<close>\<close>

definition insertFrame :: "FrameEvidence \<Rightarrow> World \<Rightarrow> World" where
  "insertFrame f w =
     w\<lparr>db := (db w)\<lparr>st_frame_evidence := st_frame_evidence (db w) @
          [f\<lparr>fr_derived := Some (case fr_derived f of Some d \<Rightarrow> d
                                  | None \<Rightarrow> \<lparr>fd_summary = None, fd_tags = None\<rparr>)\<rparr>]\<rparr>\<rparr>"

text \<open>\<^verbatim>\<open>UPDATE frame_evidence SET derived = ? WHERE id = ?\<close>\<close>

definition updateFrameDerived :: "uuid \<Rightarrow> FrameDerived \<Rightarrow> World \<Rightarrow> World" where
  "updateFrameDerived frameId d w =
     w\<lparr>db := (db w)\<lparr>st_frame_evidence :=
          map (\<lambda>f. if fr_id f = frameId then f\<lparr>fr_derived := Some d\<rparr> else f)
              (st_frame_evidence (db w))\<rparr>\<rparr>"

text \<open>
  \<^verbatim>\<open>INSERT OR REPLACE INTO case_analysis (caseId, analysis, updatedAt)\<close>, where
  \<^verbatim>\<open>caseId\<close> is the primary key: the rows with that key are removed and the new row added.
\<close>

definition insertOrReplaceAnalysis :: "Env \<Rightarrow> uuid \<Rightarrow> CaseAnalysis \<Rightarrow> World \<Rightarrow> World" where
  "insertOrReplaceAnalysis env caseId a w =
     advance (w\<lparr>db := (db w)\<lparr>st_case_analysis :=
          filter (\<lambda>r. row_caseId r \<noteq> caseId) (st_case_analysis (db w)) @
          [\<lparr>row_caseId = caseId, row_analysis = a, row_updatedAt = now env (tick w)\<rparr>]\<rparr>\<rparr>)"

text \<open>\<^verbatim>\<open>UPDATE cases SET status = ?, updatedAt = ? WHERE id = ?\<close>\<close>

definition setCaseStatus :: "Env \<Rightarrow> uuid \<Rightarrow> CaseStatus \<Rightarrow> World \<Rightarrow> World" where
  "setCaseStatus env caseId status w =
     advance (w\<lparr>db := (db w)\<lparr>st_cases :=
          map (\<lambda>c. if case_id c = caseId
                    then c\<lparr>case_status := status, case_updatedAt := now env (tick w)\<rparr> else c)
              (st_cases (db w))\<rparr>\<rparr>)"

section \<open>The reasoning-model client (GeminiClient)\<close>

text \<open>
  Each method returns its result or the message of the error it throws (\<open>Inl\<close>), and the
  world after the call.
\<close>

definition summaryFallback :: "string \<Rightarrow> GeminiSummary" where
  "summaryFallback text = \<lparr>gs_summary = take 300 text, gs_tags = [], gs_timeHint = None,
     gs_reasoning = Some ''Processed evidence item (text-only response).''\<rparr>"

definition summarizeEvidence :: "Env \<Rightarrow> EvidenceItem \<Rightarrow> string option \<Rightarrow> string option \<Rightarrow> World
    \<Rightarrow> (string + GeminiSummary) \<times> World" where
  "summarizeEvidence env evidence imageData textContent w =
     (case gemini_summarize env (tick w) evidence imageData textContent of
        CallFails m \<Rightarrow> Inl (''Failed to summarize evidence: '' @ m)
      | NoJson text \<Rightarrow> Inr (summaryFallback text)
      | BadJson text m \<Rightarrow> Inr (summaryFallback text)
      | Json text p \<Rightarrow>
          Inr \<lparr>gs_summary = str_or (sj_summary p) (take 300 text),
               gs_tags = (case sj_tags p of Some ts \<Rightarrow> ts | None \<Rightarrow> []),
               gs_timeHint = sj_timeHint p,
               gs_reasoning = Some (str_or (sj_reasoning p)
                                     ''Analyzed evidence item for key details.'')\<rparr>,
      advance w)"

definition transcribeAudio :: "Env \<Rightarrow> string \<Rightarrow> string \<Rightarrow> World \<Rightarrow> (string + string) \<times> World" where
  "transcribeAudio env audioData mimeType w =
     (case gemini_transcribe env (tick w) audioData mimeType of
        Inl m \<Rightarrow> Inl (''Failed to transcribe audio: '' @ m)
      | Inr transcript \<Rightarrow> Inr transcript,
      advance w)"

text \<open>
  \<^verbatim>\<open>fuseEvidence\<close> throws before its \<^verbatim>\<open>try\<close> when there is no summary. Inside, a failing
  call and a failing \<^verbatim>\<open>JSON.parse\<close> (rethrown by the inner \<^verbatim>\<open>catch\<close>) both reach the
  outer \<^verbatim>\<open>catch\<close>, which throws \<^verbatim>\<open>Failed to fuse evidence: ...\<close>. A reply without JSON
  gives the one-event fallback timeline. A parsed reply whose \<^verbatim>\<open>timeline\<close> is missing or
  not an array gets the empty timeline.
\<close>

definition fusionFallback :: "EvidenceSummary list \<Rightarrow> string \<Rightarrow> GeminiFusionResult" where
  "fusionFallback evidenceSummaries text =
     \<lparr>fu_timeline =
        [\<lparr>rt_label = ''Evidence Collected'',
          rt_description = take 200 text,
          rt_startTime = Some 0,
          rt_endTime = Some 10,
          rt_confidence = 0.7,
          rt_supportingEvidenceIds =
            map (\<lambda>i. ''Evidence '' @ str_of_nat (i + 1)) [0..<length evidenceSummaries]\<rparr>],
      fu_worldModel = take 500 text,
      fu_reasoning = Some ''Processed evidence fusion (fallback mode).''\<rparr>"

definition fuseEvidence :: "Env \<Rightarrow> EvidenceSummary list \<Rightarrow> World
    \<Rightarrow> (string + GeminiFusionResult) \<times> World" where
  "fuseEvidence env evidenceSummaries w =
     (if length evidenceSummaries = 0 then (Inl ''No evidence summaries provided for fusion'', w)
      else
        (case gemini_fuse env (tick w) evidenceSummaries of
           CallFails m \<Rightarrow> Inl (''Failed to fuse evidence: '' @ m)
         | NoJson text \<Rightarrow> Inr (fusionFallback evidenceSummaries text)
         | BadJson text m \<Rightarrow> Inl (''Failed to fuse evidence: '' @ m)
         | Json text p \<Rightarrow>
             Inr \<lparr>fu_timeline = (case fj_timeline p of Some ts \<Rightarrow> ts | None \<Rightarrow> []),
                  fu_worldModel = str_or (fj_worldModel p)
                    ''Analysis complete but world model description unavailable.'',
                  fu_reasoning = Some (str_or (fj_reasoning p)
                    ''Fused evidence into unified timeline.'')\<rparr>,
         advance w))"

text \<open>
  \<^verbatim>\<open>detectContradictions\<close> and \<^verbatim>\<open>generateScenarios\<close> catch everything: a failing call
  and a failing \<^verbatim>\<open>JSON.parse\<close> give the empty list.
\<close>

definition detectContradictions :: "Env \<Rightarrow> TimelineEvent list \<Rightarrow> EvidenceSummary list \<Rightarrow> string list
    \<Rightarrow> World \<Rightarrow> GeminiContradictionResult \<times> World" where
  "detectContradictions env timeline evidenceSummaries witnessStatements w =
     (case gemini_contradictions env (tick w) timeline evidenceSummaries witnessStatements of
        CallFails m \<Rightarrow>
          \<lparr>gc_contradictions = [], gc_reasoning = Some ''Failed to analyze contradictions.''\<rparr>
      | NoJson text \<Rightarrow>
          \<lparr>gc_contradictions = [], gc_reasoning = Some ''Processed contradiction analysis.''\<rparr>
      | BadJson text m \<Rightarrow>
          \<lparr>gc_contradictions = [], gc_reasoning = Some ''Failed to analyze contradictions.''\<rparr>
      | Json text p \<Rightarrow>
          \<lparr>gc_contradictions = (case cj_contradictions p of Some cs \<Rightarrow> cs | None \<Rightarrow> []),
            gc_reasoning = Some (str_or (cj_reasoning p) ''Analyzed for contradictions.'')\<rparr>,
      advance w)"

definition generateScenarios :: "Env \<Rightarrow> string \<Rightarrow> TimelineEvent list \<Rightarrow> Contradiction list
    \<Rightarrow> World \<Rightarrow> GeminiScenarioResult \<times> World" where
  "generateScenarios env worldModel timeline contradictions w =
     (case gemini_scenarios env (tick w) worldModel timeline contradictions of
        CallFails m \<Rightarrow>
          \<lparr>gn_scenarios = [], gn_reasoning = Some ''Failed to generate scenarios.''\<rparr>
      | NoJson text \<Rightarrow>
          \<lparr>gn_scenarios = [], gn_reasoning = Some ''Processed scenario generation.''\<rparr>
      | BadJson text m \<Rightarrow>
          \<lparr>gn_scenarios = [], gn_reasoning = Some ''Failed to generate scenarios.''\<rparr>
      | Json text p \<Rightarrow>
          \<lparr>gn_scenarios = (case sn_scenarios p of Some ss \<Rightarrow> ss | None \<Rightarrow> []),
            gn_reasoning = Some (str_or (sn_reasoning p) ''Generated scenarios.'')\<rparr>,
      advance w)"


section \<open>Key-frame selection (EvidenceService.selectKeyFrames)\<close>

text \<open>
  The source loop is \<^verbatim>\<open>for (let i = step; i < frames.length - 1; i += step)\<close> with the
  body \<^verbatim>\<open>if (result.length < maxFrames - 1) result.push(frames[i])\<close>. It is only entered
  with \<open>0 < step\<close> (see \<open>selectKeyFrames\<close>), which is what makes it terminate.
\<close>

function selectKeyFrames_loop :: "'a list \<Rightarrow> nat \<Rightarrow> nat \<Rightarrow> nat \<Rightarrow> 'a list \<Rightarrow> 'a list" where
  "selectKeyFrames_loop frames maxFrames step i result =
     (if 0 < step \<and> i < length frames - 1
      then selectKeyFrames_loop frames maxFrames step (i + step)
             (if length result < maxFrames - 1 then result @ [frames ! i] else result)
      else result)"
  by pat_completeness auto
termination
  by (relation "measure (\<lambda>(frames, maxFrames, step, i, result). length frames - 1 - i)") auto

declare selectKeyFrames_loop.simps [simp del]

text \<open>
  \<^verbatim>\<open>step = Math.floor(frames.length / maxFrames)\<close>. The function is reached past the early
  return only with \<open>maxFrames < length frames\<close>, so the list is non-empty and
  \<open>frames[0]\<close> exists. For \<open>maxFrames = 0\<close> the JavaScript quotient is \<open>Infinity\<close> and the
  loop body never runs; that case is written out, since HOL's \<open>div\<close> would give 0.
\<close>

definition selectKeyFrames :: "'a list \<Rightarrow> nat \<Rightarrow> 'a list" where
  "selectKeyFrames frames maxFrames =
     (if length frames \<le> maxFrames then frames
      else
        let result0 = [frames ! 0];
            result1 = (if maxFrames = 0 then result0
                       else selectKeyFrames_loop frames maxFrames
                              (length frames div maxFrames) (length frames div maxFrames) result0)
        in if length frames > 1 then result1 @ [frames ! (length frames - 1)] else result1)"

text \<open>
  The choice made in \<^verbatim>\<open>processEvidence\<close>:
  \<^verbatim>\<open>frames.length > 30 ? this.selectKeyFrames(frames, 15) : frames\<close>.
\<close>

definition framesToAnalyze :: "'a list \<Rightarrow> 'a list" where
  "framesToAnalyze frames =
     (if length frames > 30 then selectKeyFrames frames 15 else frames)"

section \<open>Frame extraction (extractFrames)\<close>

text \<open>
  \<^verbatim>\<open>frameFiles.forEach((frameFile, index) => ...)\<close>: one frame per file, with a new
  identifier and \<^verbatim>\<open>timeSeconds = index * intervalSeconds\<close>. The second numeric argument is
  the current index, the third the number of files still to visit.
\<close>

fun extractedFrames :: "uuid \<Rightarrow> uuid \<Rightarrow> nat \<Rightarrow> nat \<Rightarrow> nat \<Rightarrow> World
    \<Rightarrow> FrameEvidence list \<times> World" where
  "extractedFrames caseId evidenceId intervalSeconds index 0 w = ([], w)"
| "extractedFrames caseId evidenceId intervalSeconds index (Suc k) w =
     (let (frameId, w1) = uuidv4 w;
          frame = \<lparr>fr_id = frameId,
                   fr_parentEvidenceId = evidenceId,
                   fr_timeSeconds = index * intervalSeconds,
                   fr_storageUrl = ''/uploads/'' @ str_of_nat caseId @ ''/frames/''
                                     @ str_of_nat frameId @ ''.jpg'',
                   fr_derived = None\<rparr>;
          (rest, w2) = extractedFrames caseId evidenceId intervalSeconds (Suc index) k w1
      in (frame # rest, w2))"

definition extractFrames :: "Env \<Rightarrow> string \<Rightarrow> uuid \<Rightarrow> uuid \<Rightarrow> nat \<Rightarrow> World
    \<Rightarrow> (string + FrameEvidence list) \<times> World" where
  "extractFrames env videoPath caseId evidenceId intervalSeconds w =
     (case ffmpeg env (tick w) videoPath of
        ProbeFails m \<Rightarrow> (Inl m, advance w)
      | NoDuration \<Rightarrow> (Inl ''Could not determine video duration'', advance w)
      | RunFails m \<Rightarrow> (Inl m, advance w)
      | FrameFiles k \<Rightarrow>
          (let (frames, w1) = extractedFrames caseId evidenceId intervalSeconds 0 k (advance w)
           in (Inr frames, w1)))"

section \<open>Evidence processing (EvidenceService.processEvidence)\<close>

definition nl :: string where
  "nl = [CHR 0x0A]"

text \<open>\<^verbatim>\<open>...evidence.derived\<close>: the fields already there, or none.\<close>

definition derivedOf :: "EvidenceItem \<Rightarrow> Derived" where
  "derivedOf evidence = (case ev_derived evidence of Some d \<Rightarrow> d | None \<Rightarrow> emptyDerived)"

record ProcessResult =
  res_frames :: "FrameEvidence list option"
  res_transcript :: "string option"
  res_summary :: "string option"

definition noResults :: ProcessResult where
  "noResults = \<lparr>res_frames = None, res_transcript = None, res_summary = None\<rparr>"

text \<open>
  \<^verbatim>\<open>analyzeVideoFrame\<close>: a frame file that is missing, cannot be read or cannot be
  summarised gives a description saying so and no tags; nothing is thrown.
\<close>

definition analyzeVideoFrame :: "Env \<Rightarrow> FrameEvidence \<Rightarrow> EvidenceItem \<Rightarrow> World
    \<Rightarrow> (string \<times> string list) \<times> World" where
  "analyzeVideoFrame env frame evidence w =
     (let framePath = pathJoin env [uploadsDir env, str_of_nat (ev_caseId evidence), ''frames'',
                                    str_of_nat (fr_id frame) @ ''.jpg''];
          t = str_of_nat (fr_timeSeconds frame)
      in if \<not> fs_existsSync env (tick w) framePath
         then ((''Frame at '' @ t @ ''s: [not found]'', []), advance w)
         else
           (let w1 = advance w in
            case fs_readFileSync env (tick w1) framePath Binary of
              Inl m \<Rightarrow> ((''Frame at '' @ t @ ''s: [analysis failed]'', []), advance w1)
            | Inr imageData \<Rightarrow>
                (let frameEvidence = evidence\<lparr>ev_type := Image,
                        ev_originalFilename := ''frame_'' @ t @ ''s.jpg''\<rparr>;
                     (r, w2) = summarizeEvidence env frameEvidence (Some imageData) None
                                 (advance w1)
                 in case r of
                      Inl m \<Rightarrow> ((''Frame at '' @ t @ ''s: [analysis failed]'', []), w2)
                    | Inr result \<Rightarrow>
                        ((''['' @ t @ ''s] '' @ gs_summary result, gs_tags result),
                         updateFrameDerived (fr_id frame)
                           \<lparr>fd_summary = Some (gs_summary result),
                            fd_tags = Some (gs_tags result)\<rparr> w2))))"

text \<open>\<^verbatim>\<open>analysis.tags.forEach(tag => allTags.add(tag))\<close> on a \<^verbatim>\<open>Set\<close>, in insertion order.\<close>

definition addTags :: "string list \<Rightarrow> string list \<Rightarrow> string list" where
  "addTags allTags tags = foldl (\<lambda>acc t. if t \<in> set acc then acc else acc @ [t]) allTags tags"

fun analyzeFrames :: "Env \<Rightarrow> EvidenceItem \<Rightarrow> FrameEvidence list \<Rightarrow> string list \<Rightarrow> string list
    \<Rightarrow> World \<Rightarrow> (string list \<times> string list) \<times> World" where
  "analyzeFrames env evidence [] frameDescriptions allTags w = ((frameDescriptions, allTags), w)"
| "analyzeFrames env evidence (frame # rest) frameDescriptions allTags w =
     (let ((description, tags), w1) = analyzeVideoFrame env frame evidence w
      in analyzeFrames env evidence rest (frameDescriptions @ [description])
           (addTags allTags tags) w1)"

text \<open>
  The body of each \<^verbatim>\<open>try\<close> block returns \<open>Inl\<close> with the message of what it throws, or
  the results after writing \<^verbatim>\<open>derived\<close>. The \<^verbatim>\<open>catch\<close> blocks are in \<open>processEvidence\<close>.
\<close>

definition videoBody :: "Env \<Rightarrow> EvidenceItem \<Rightarrow> string \<Rightarrow> ProcessResult \<Rightarrow> World
    \<Rightarrow> (string + ProcessResult) \<times> World" where
  "videoBody env evidence filePath results w =
     (let (r, w1) = extractFrames env filePath (ev_caseId evidence) (ev_id evidence) 1 w
      in case r of
           Inl m \<Rightarrow> (Inl m, w1)
         | Inr frames \<Rightarrow>
             (let w2 = foldl (\<lambda>w f. insertFrame f w) w1 frames;
                  toAnalyze = framesToAnalyze frames;
                  ((frameDescriptions, allTags), w3) = analyzeFrames env evidence toAnalyze [] [] w2;
                  combinedDescription =
                    ''VIDEO ANALYSIS: '' @ ev_originalFilename evidence @ nl @
                    ''Duration: '' @ str_of_nat (length frames) @ '' seconds ('' @
                    str_of_nat (length frames) @ '' frames analyzed)'' @ nl @ nl @
                    ''FRAME-BY-FRAME ANALYSIS:'' @ nl @ join (nl @ nl) frameDescriptions;
                  updatedDerived = (derivedOf evidence)\<lparr>
                    dv_summary := Some combinedDescription,
                    dv_tags := Some allTags,
                    dv_frameIds := Some (map fr_id frames),
                    dv_frameCount := Some (length frames),
                    dv_analyzedFrameCount := Some (length toAnalyze)\<rparr>
              in (Inr (results\<lparr>res_frames := Some frames,
                               res_summary := Some combinedDescription\<rparr>),
                  updateEvidenceDerived (ev_id evidence) updatedDerived w3)))"

definition mimeTypeOf :: "string \<Rightarrow> string" where
  "mimeTypeOf ext =
     (if ext = ''.mp3'' then ''audio/mpeg''
      else if ext = ''.m4a'' then ''audio/mp4''
      else if ext = ''.ogg'' then ''audio/ogg''
      else ''audio/wav'')"

definition audioBody :: "Env \<Rightarrow> EvidenceItem \<Rightarrow> string \<Rightarrow> ProcessResult \<Rightarrow> World
    \<Rightarrow> (string + ProcessResult) \<times> World" where
  "audioBody env evidence filePath results w =
     (case fs_readFileSync env (tick w) filePath Binary of
        Inl m \<Rightarrow> (Inl m, advance w)
      | Inr audioData \<Rightarrow>
          (let mimeType = mimeTypeOf (extnameLower env (ev_originalFilename evidence));
               (r, w1) = transcribeAudio env audioData mimeType (advance w)
           in case r of
                Inl m \<Rightarrow> (Inl m, w1)
              | Inr transcript \<Rightarrow>
                  (let summary = ''AUDIO TRANSCRIPT: '' @ ev_originalFilename evidence
                                   @ nl @ nl @ transcript;
                       updatedDerived = (derivedOf evidence)\<lparr>
                         dv_transcript := Some transcript,
                         dv_summary := Some summary,
                         dv_tags := Some [''audio'', ''transcript'']\<rparr>
                   in (Inr (results\<lparr>res_transcript := Some transcript,
                                    res_summary := Some summary\<rparr>),
                       updateEvidenceDerived (ev_id evidence) updatedDerived w1))))"

text \<open>\<^verbatim>\<open>textContent.trim().length === 0\<close>: only white space.\<close>

definition isSpace :: "char \<Rightarrow> bool" where
  "isSpace c = (c \<in> set [CHR '' '', CHR 0x09, CHR 0x0A, CHR 0x0B, CHR 0x0C, CHR 0x0D])"

definition maxChars :: nat where
  "maxChars = 50000"

text \<open>
  The text handed to the model: at most \<open>maxChars\<close> characters, with a marker when the
  content was cut.
\<close>

definition truncateText :: "string \<Rightarrow> string" where
  "truncateText textContent =
     (if length textContent > maxChars
      then take maxChars textContent @ nl @ nl @ ''[... truncated from '' @
           str_of_nat (length textContent) @ '' to '' @ str_of_nat maxChars @
           '' characters ...]''
      else textContent)"

definition textBody :: "Env \<Rightarrow> EvidenceItem \<Rightarrow> string \<Rightarrow> ProcessResult \<Rightarrow> World
    \<Rightarrow> (string + ProcessResult) \<times> World" where
  "textBody env evidence filePath results w =
     (let (rd, w1) =
            (case fs_readFileSync env (tick w) filePath Utf8 of
               Inr s \<Rightarrow> (Inr s, advance w)
             | Inl utf8Error \<Rightarrow>
                 (fs_readFileSync env (tick (advance w)) filePath Latin1, advance (advance w)))
      in case rd of
           Inl m \<Rightarrow> (Inl m, w1)
         | Inr textContent0 \<Rightarrow>
             if list_all isSpace textContent0 then (Inl ''File is empty or unreadable'', w1)
             else
               (let truncated = length textContent0 > maxChars;
                    textContent = truncateText textContent0;
                    (r, w2) = summarizeEvidence env evidence None (Some textContent) w1
                in case r of
                     Inl m \<Rightarrow> (Inl m, w2)
                   | Inr summaryResult \<Rightarrow>
                       (let updatedDerived = (derivedOf evidence)\<lparr>
                              dv_summary := Some (gs_summary summaryResult),
                              dv_tags := Some (gs_tags summaryResult),
                              dv_fullText := Some textContent,
                              dv_charCount := Some (length textContent),
                              dv_truncated := Some truncated\<rparr>
                        in (Inr (results\<lparr>res_summary := Some
                                   (''TEXT DOCUMENT: '' @ ev_originalFilename evidence @ nl @ nl @
                                    ''CONTENT SUMMARY:'' @ nl @ gs_summary summaryResult @ nl @ nl @
                                    ''FULL TEXT:'' @ nl @ textContent)\<rparr>),
                            updateEvidenceDerived (ev_id evidence) updatedDerived w2))))"

definition imageBody :: "Env \<Rightarrow> EvidenceItem \<Rightarrow> string \<Rightarrow> ProcessResult \<Rightarrow> World
    \<Rightarrow> (string + ProcessResult) \<times> World" where
  "imageBody env evidence filePath results w =
     (case fs_readFileSync env (tick w) filePath Binary of
        Inl m \<Rightarrow> (Inl m, advance w)
      | Inr imageData \<Rightarrow>
          (let (r, w1) = summarizeEvidence env evidence (Some imageData) None (advance w)
           in case r of
                Inl m \<Rightarrow> (Inl m, w1)
              | Inr summaryResult \<Rightarrow>
                  (let updatedDerived = (derivedOf evidence)\<lparr>
                         dv_summary := Some (gs_summary summaryResult),
                         dv_tags := Some (gs_tags summaryResult)\<rparr>
                   in (Inr (results\<lparr>res_summary := Some
                              (''IMAGE: '' @ ev_originalFilename evidence @ nl @ nl @
                               gs_summary summaryResult)\<rparr>),
                       updateEvidenceDerived (ev_id evidence) updatedDerived w1))))"

text \<open>The \<^verbatim>\<open>derived\<close> value a \<^verbatim>\<open>catch\<close> block writes.\<close>

definition errorDerived :: "EvidenceItem \<Rightarrow> string \<Rightarrow> string list \<Rightarrow> string \<Rightarrow> Derived" where
  "errorDerived evidence summaryPrefix tags errorMsg =
     (derivedOf evidence)\<lparr>dv_summary := Some (summaryPrefix @ errorMsg),
                          dv_tags := Some tags,
                          dv_error := Some errorMsg\<rparr>"

text \<open>
  \<^verbatim>\<open>try { body } catch (error) { write errorDerived }\<close>; the results object keeps what it
  held when the block was entered.
\<close>

definition tryBlock :: "((string + ProcessResult) \<times> World) \<Rightarrow> EvidenceItem \<Rightarrow> string
    \<Rightarrow> string list \<Rightarrow> ProcessResult \<Rightarrow> ProcessResult \<times> World" where
  "tryBlock body evidence summaryPrefix tags results =
     (case body of
        (Inr results', w') \<Rightarrow> (results', w')
      | (Inl errorMsg, w') \<Rightarrow>
          (results, updateEvidenceDerived (ev_id evidence)
                      (errorDerived evidence summaryPrefix tags errorMsg) w'))"

text \<open>
  \<^verbatim>\<open>fs.statSync\<close>, whose result is only logged, is taken to succeed on a path for which
  \<^verbatim>\<open>fs.existsSync\<close> has just returned true. The four \<^verbatim>\<open>if\<close> blocks test disjoint types
  and are passed in the order of the source.
\<close>

definition processEvidence :: "Env \<Rightarrow> EvidenceItem \<Rightarrow> string \<Rightarrow> World \<Rightarrow> ProcessResult \<times> World" where
  "processEvidence env evidence filePath w =
     (if \<not> fs_existsSync env (tick w) filePath
      then (noResults,
            updateEvidenceDerived (ev_id evidence)
              ((derivedOf evidence)\<lparr>
                 dv_summary := Some (''Error: File not found at '' @ filePath),
                 dv_tags := Some [''error'', ''file-not-found'']\<rparr>) (advance w))
      else
        (let w0 = advance w;
             (r1, w1) = (if ev_type evidence = Video
                         then tryBlock (videoBody env evidence filePath noResults w0) evidence
                                ''Video processing failed: '' [''video'', ''processing-error'']
                                noResults
                         else (noResults, w0));
             (r2, w2) = (if ev_type evidence = Audio
                         then tryBlock (audioBody env evidence filePath r1 w1) evidence
                                ''Audio transcription failed: '' [''audio'', ''transcription-error'']
                                r1
                         else (r1, w1));
             (r3, w3) = (if ev_type evidence = Text \<or> ev_type evidence = Document
                         then tryBlock (textBody env evidence filePath r2 w2) evidence
                                ''Text file processing failed: '' [''text'', ''processing-error'']
                                r2
                         else (r2, w2));
             (r4, w4) = (if ev_type evidence = Image
                         then tryBlock (imageBody env evidence filePath r3 w3) evidence
                                ''Image analysis failed: '' [''image'', ''analysis-error'']
                                r3
                         else (r3, w3))
         in (r4, w4)))"


section \<open>Visual reconstruction (NanoBananaService.generateReconstruction)\<close>

text \<open>
  Every path of \<^verbatim>\<open>generateReconstruction\<close> returns an image record with the identifier
  generated on entry: an image of the first model, an image of the fallback model, or the
  placeholder; all errors are caught inside.
\<close>

definition generateReconstruction :: "Env \<Rightarrow> uuid \<Rightarrow> Scenario \<Rightarrow> string \<Rightarrow> string \<Rightarrow> string
    \<Rightarrow> World \<Rightarrow> ReconstructionImage \<times> World" where
  "generateReconstruction env caseId scenario viewpoint type description w =
     (let (id, w1) = uuidv4 w;
          stored = (\<lambda>ext. ''/uploads/'' @ str_of_nat caseId @ ''/reconstructions/''
                             @ str_of_nat id @ ''.'' @ ext);
          (storageUrl, descr) =
            (case gemini_image env (tick w1) scenario viewpoint of
               Image4K png \<Rightarrow>
                 (stored (if png then ''png'' else ''jpg''),
                  ''4K AI-generated reconstruction: '' @ viewpoint @ '' view of '' @ sc_name scenario)
             | ImageFlash png \<Rightarrow>
                 (stored (if png then ''png'' else ''jpg''),
                  ''AI-generated reconstruction: '' @ viewpoint @ '' view of '' @ sc_name scenario)
             | ImagePlaceholder url \<Rightarrow>
                 (url, ''[Demo] '' @ viewpoint @ '' view - '' @ sc_name scenario @
                       ''. Representative image for demonstration.''))
      in (\<lparr>ri_id = id, ri_caseId = caseId, ri_scenarioId = sc_id scenario,
            ri_viewpoint = viewpoint, ri_type = type, ri_storageUrl = storageUrl,
            ri_description = descr\<rparr>,
          advance w1))"

section \<open>The orchestrator (AnalysisOrchestrator.run)\<close>

datatype RunOutcome = RunCompleted (analysisOf: CaseAnalysis) | RunFailed (messageOf: string)

definition typeName :: "EvidenceType \<Rightarrow> string" where
  "typeName t = (case t of Image \<Rightarrow> ''image'' | Video \<Rightarrow> ''video'' | Audio \<Rightarrow> ''audio''
                 | Text \<Rightarrow> ''text'' | Document \<Rightarrow> ''document'')"

text \<open>A progress event with status \<^verbatim>\<open>running\<close> and \<^verbatim>\<open>totalSteps: 7\<close>.\<close>

definition running :: "string \<Rightarrow> nat \<Rightarrow> string \<Rightarrow> string option \<Rightarrow> nat \<Rightarrow> AnalysisProgress" where
  "running step progress reasoning currentItem stepNumber =
     \<lparr>pr_step = step, pr_progress = progress, pr_reasoning = Some reasoning,
      pr_currentItem = currentItem, pr_status = StatusRunning,
      pr_stepNumber = Some stepNumber, pr_totalSteps = Some 7\<rparr>"

text \<open>\<^verbatim>\<open>Math.floor((i / evidence.length) * 15)\<close>, in exact arithmetic.\<close>

definition progressOf :: "nat \<Rightarrow> nat \<Rightarrow> nat" where
  "progressOf i n = nat \<lfloor>(real i / real n) * 15\<rfloor>"

text \<open>
  \<^verbatim>\<open>path.join(uploadsDir, storageUrl.startsWith("/") ? storageUrl.slice(1) : storageUrl)\<close>
\<close>

definition filePathOf :: "Env \<Rightarrow> EvidenceItem \<Rightarrow> string" where
  "filePathOf env item =
     pathJoin env [uploadsDir env,
                   (case ev_storageUrl item of
                      c # rest \<Rightarrow> if c = CHR ''/'' then rest else ev_storageUrl item
                    | [] \<Rightarrow> ev_storageUrl item)]"

text \<open>\<^verbatim>\<open>item?.derived?.summary\<close>, \<^verbatim>\<open>item?.derived?.tags || []\<close>, \<^verbatim>\<open>e.derived?.transcript\<close>\<close>

definition summaryOf :: "EvidenceItem option \<Rightarrow> string option" where
  "summaryOf item = (case item of None \<Rightarrow> None
                     | Some e \<Rightarrow> (case ev_derived e of None \<Rightarrow> None | Some d \<Rightarrow> dv_summary d))"

definition tagsOf :: "EvidenceItem option \<Rightarrow> string list" where
  "tagsOf item = (case item of None \<Rightarrow> []
                  | Some e \<Rightarrow> (case ev_derived e of None \<Rightarrow> []
                               | Some d \<Rightarrow> (case dv_tags d of None \<Rightarrow> [] | Some ts \<Rightarrow> ts)))"

definition transcriptOf :: "EvidenceItem \<Rightarrow> string option" where
  "transcriptOf e = (case ev_derived e of None \<Rightarrow> None | Some d \<Rightarrow> dv_transcript d)"

subsection \<open>Processing the evidence, one item after the other\<close>

text \<open>
  The body of the \<^verbatim>\<open>for\<close> loop over the evidence. \<open>processEvidence\<close> does not throw, so
  the \<^verbatim>\<open>catch\<close> block of the loop has no counterpart.
\<close>

definition processItem :: "Env \<Rightarrow> uuid \<Rightarrow> nat \<Rightarrow> nat \<Rightarrow> EvidenceItem \<Rightarrow> World \<Rightarrow> World" where
  "processItem env caseId n i item w =
     (let filePath = filePathOf env item;
          w1 = emitProgress
                 (running ''Processing evidence'' (progressOf i n)
                    (''Starting analysis of '' @ typeName (ev_type item) @ '': '' @
                     ev_originalFilename item @ '' ('' @ str_of_nat (i + 1) @ ''/'' @
                     str_of_nat n @ '')...'')
                    (Some (ev_originalFilename item)) 0) w
      in if \<not> fs_existsSync env (tick w1) filePath
         then emitProgress
                (running ''Processing evidence'' (progressOf i n)
                   (''Warning: File not found for '' @ ev_originalFilename item @ ''. Skipping...'')
                   (Some (ev_originalFilename item)) 0) (advance w1)
         else
           (let (processResult, w2) = processEvidence env item filePath (advance w1);
                updatedItem = getEvidenceByCase w2 caseId;
                currentItem = find (\<lambda>e. ev_id e = ev_id item) updatedItem;
                w3 = (if truthy (summaryOf currentItem)
                      then emitProgress
                             (running ''Processing evidence'' (progressOf (i + 1) n)
                                (''Completed '' @ typeName (ev_type item) @ '': '' @
                                 ev_originalFilename item @ nl @ ''Summary: '' @
                                 take 150 (the (summaryOf currentItem)) @ ''...'')
                                (Some (ev_originalFilename item)) 0) w2
                      else emitProgress
                             (running ''Processing evidence'' (progressOf (i + 1) n)
                                (''Processed '' @ typeName (ev_type item) @ '': '' @
                                 ev_originalFilename item @ '' but summary not available'')
                                (Some (ev_originalFilename item)) 0) w2)
            in case res_frames processResult of
                 Some frames \<Rightarrow>
                   if ev_type item = Video
                   then emitProgress
                          (running ''Processing evidence'' (progressOf (i + 1) n)
                             (''Extracted '' @ str_of_nat (length frames) @
                              '' frames from video. Analyzing key frames...'')
                             (Some (ev_originalFilename item)) 0) w3
                   else w3
               | None \<Rightarrow> w3))"

fun processAll :: "Env \<Rightarrow> uuid \<Rightarrow> nat \<Rightarrow> nat \<Rightarrow> EvidenceItem list \<Rightarrow> World \<Rightarrow> World" where
  "processAll env caseId n i [] w = w"
| "processAll env caseId n i (item # rest) w =
     processAll env caseId n (Suc i) rest (processItem env caseId n i item w)"

subsection \<open>Collecting the summaries\<close>

definition needsRetry :: "string option \<Rightarrow> bool" where
  "needsRetry summary =
     (case summary of
        None \<Rightarrow> True
      | Some s \<Rightarrow> s = [] \<or> str_includes s ''Error'' \<or> str_includes s ''Error during analysis''
                  \<or> str_includes s ''Evidence file:'')"

definition needsFallback :: "string option \<Rightarrow> bool" where
  "needsFallback summary =
     (case summary of
        None \<Rightarrow> True
      | Some s \<Rightarrow> s = [] \<or> str_includes s ''Evidence file:'' \<or> str_includes s ''Error'')"

definition fallbackSummary :: "EvidenceItem \<Rightarrow> string" where
  "fallbackSummary e =
     (if ev_type e = Video
      then ''Video file: '' @ ev_originalFilename e @ '' - processing may have failed.''
      else if ev_type e = Audio
      then (if truthy (transcriptOf e)
            then ''Audio transcript: '' @ take 300 (the (transcriptOf e)) @ ''...''
            else ''Audio file: '' @ ev_originalFilename e @ '' - transcription may have failed.'')
      else if ev_type e = Text \<or> ev_type e = Document
      then ''Text document: '' @ ev_originalFilename e @ '' - content analysis may have failed.''
      else typeName (ev_type e) @ '' file: '' @ ev_originalFilename e @ '' - analysis incomplete.'')"

text \<open>
  The body of the loop over the reloaded evidence: one retry of \<open>processEvidence\<close> when the
  summary is missing or carries an error marker and the file exists, the fallback text when
  it still does, the frame and transcript annotations, and the entry pushed.
\<close>

definition collectItem :: "Env \<Rightarrow> uuid \<Rightarrow> EvidenceItem \<Rightarrow> World \<Rightarrow> EvidenceSummary \<times> World" where
  "collectItem env caseId e w =
     (let summary0 = summaryOf (Some e);
          tags0 = tagsOf (Some e);
          (summary1, tags1, w1) =
            (if needsRetry summary0
             then (let filePath = filePathOf env e in
                   if fs_existsSync env (tick w) filePath
                   then (let (r, w') = processEvidence env e filePath (advance w);
                             reloaded = getEvidenceByCase w' caseId;
                             reloadedItem = find (\<lambda>item. ev_id item = ev_id e) reloaded
                         in if truthy (summaryOf reloadedItem)
                               \<and> \<not> str_includes (the (summaryOf reloadedItem)) ''Evidence file:''
                            then (summaryOf reloadedItem, tagsOf reloadedItem, w')
                            else (summary0, tags0, w'))
                   else (summary0, tags0, advance w))
             else (summary0, tags0, w));
          summary2 = (if needsFallback summary1 then fallbackSummary e else the summary1);
          frames = getFramesByEvidence w1 (ev_id e);
          (summary3, tags2) =
            (if ev_type e = Video \<and> length frames > 0
             then (summary2 @ '' ['' @ str_of_nat (length frames) @ '' frames extracted and analyzed]'',
                   tags1 @ [str_of_nat (length frames) @ '' video frames''])
             else (summary2, tags1));
          tags3 = (if ev_type e = Audio \<and> truthy (transcriptOf e)
                   then tags2 @ [''transcribed''] else tags2)
      in (\<lparr>su_evidence = e,
            su_summary = str_or (Some summary3) (''Evidence: '' @ ev_originalFilename e),
            su_tags = (if length tags3 > 0 then tags3 else [typeName (ev_type e)])\<rparr>,
          w1))"

fun collectAll :: "Env \<Rightarrow> uuid \<Rightarrow> EvidenceItem list \<Rightarrow> EvidenceSummary list \<Rightarrow> World
    \<Rightarrow> EvidenceSummary list \<times> World" where
  "collectAll env caseId [] evidenceSummaries w = (evidenceSummaries, w)"
| "collectAll env caseId (e # rest) evidenceSummaries w =
     (let (entry, w1) = collectItem env caseId e w
      in collectAll env caseId rest (evidenceSummaries @ [entry]) w1)"

subsection \<open>Entities with new identifiers\<close>

text \<open>\<^verbatim>\<open>xs.map(x => ({ id: uuidv4(), caseId: this.caseId, ... }))\<close>\<close>

fun mkTimeline :: "uuid \<Rightarrow> RawTimelineEvent list \<Rightarrow> World \<Rightarrow> TimelineEvent list \<times> World" where
  "mkTimeline caseId [] w = ([], w)"
| "mkTimeline caseId (t # ts) w =
     (let (id, w1) = uuidv4 w;
          (rest, w2) = mkTimeline caseId ts w1
      in (\<lparr>tl_id = id, tl_caseId = caseId, tl_label = rt_label t,
            tl_description = rt_description t, tl_startTime = rt_startTime t,
            tl_endTime = rt_endTime t, tl_confidence = rt_confidence t,
            tl_supportingEvidenceIds = rt_supportingEvidenceIds t\<rparr> # rest, w2))"

fun mkContradictions :: "uuid \<Rightarrow> RawContradiction list \<Rightarrow> World \<Rightarrow> Contradiction list \<times> World" where
  "mkContradictions caseId [] w = ([], w)"
| "mkContradictions caseId (c # cs) w =
     (let (id, w1) = uuidv4 w;
          (rest, w2) = mkContradictions caseId cs w1
      in (\<lparr>co_id = id, co_caseId = caseId, co_description = rc_description c,
            co_involvedEvidenceIds = rc_involvedEvidenceIds c,
            co_involvedWitnesses = rc_involvedWitnesses c,
            co_severity = rc_severity c\<rparr> # rest, w2))"

definition listOr :: "'a list option \<Rightarrow> 'a list" where
  "listOr xs = (case xs of Some ys \<Rightarrow> ys | None \<Rightarrow> [])"

fun mkScenarios :: "uuid \<Rightarrow> RawScenario list \<Rightarrow> World \<Rightarrow> Scenario list \<times> World" where
  "mkScenarios caseId [] w = ([], w)"
| "mkScenarios caseId (s # ss) w =
     (let (id, w1) = uuidv4 w;
          (rest, w2) = mkScenarios caseId ss w1
      in (\<lparr>sc_id = id, sc_caseId = caseId, sc_name = rs_name s,
            sc_likelihood = rs_likelihood s, sc_narrative = rs_narrative s,
            sc_supportingEvidenceIds = rs_supportingEvidenceIds s,
            sc_conflictingEvidenceIds = rs_conflictingEvidenceIds s,
            sc_reconstructionImageIds = [],
            sc_reasoning = str_or (rs_scenarioReasoning s)
                             ''Scenario derived from evidence analysis.'',
            sc_keyFindings = listOr (rs_keyFindings s),
            sc_supportingEvidence = listOr (rs_supportingEvidence s),
            sc_conflictingEvidence = listOr (rs_conflictingEvidence s)\<rparr> # rest, w2))"

subsection \<open>Reconstructions for the two most likely scenarios\<close>

text \<open>
  \<^verbatim>\<open>scenarios.sort((a, b) => b.likelihood - a.likelihood)\<close> sorts the array in place and
  stably, by descending likelihood; \<^verbatim>\<open>slice(0, 2)\<close> shares its objects with the array, so
  the identifier pushed to a top scenario is seen in \<^verbatim>\<open>scenarios\<close> as well.
\<close>

definition sortByLikelihood :: "Scenario list \<Rightarrow> Scenario list" where
  "sortByLikelihood scenarios = sort_key (\<lambda>s. - sc_likelihood s) scenarios"

fun reconstructAll :: "Env \<Rightarrow> uuid \<Rightarrow> Scenario list \<Rightarrow> World
    \<Rightarrow> (Scenario list \<times> ReconstructionImage list) \<times> World" where
  "reconstructAll env caseId [] w = (([], []), w)"
| "reconstructAll env caseId (scenario # rest) w =
     (let (recon, w1) = generateReconstruction env caseId scenario ''from doorway''
                          ''most_likely'' (sc_narrative scenario) w;
          scenario' = scenario\<lparr>sc_reconstructionImageIds :=
                                  sc_reconstructionImageIds scenario @ [ri_id recon]\<rparr>;
          ((rest', recons), w2) = reconstructAll env caseId rest w1
      in ((scenario' # rest', recon # recons), w2))"

subsection \<open>Witness statements\<close>

text \<open>
  \<^verbatim>\<open>evidence.filter(e => e.type === "text" && e.derived?.summary).map(e => e.derived!.summary!)\<close>
\<close>

definition witnessStatements :: "EvidenceItem list \<Rightarrow> string list" where
  "witnessStatements evidence =
     map (\<lambda>e. the (summaryOf (Some e)))
         (filter (\<lambda>e. ev_type e = Text \<and> truthy (summaryOf (Some e))) evidence)"

subsection \<open>From the fusion result to the stored analysis\<close>

text \<open>
  The stages after a successful fusion, up to the assembled \<^verbatim>\<open>caseAnalysis\<close> object.
  \<open>evidence\<close> is the list loaded at the start of the run, \<open>evidenceSummaries\<close> the entries
  collected after processing.
\<close>

definition assembleAnalysis :: "Env \<Rightarrow> uuid \<Rightarrow> EvidenceItem list \<Rightarrow> EvidenceSummary list
    \<Rightarrow> GeminiFusionResult \<Rightarrow> World \<Rightarrow> CaseAnalysis \<times> World" where
  "assembleAnalysis env caseId evidence evidenceSummaries fusionResult w =
     (let w1 = emitProgress
                 (running ''Fusing evidence'' 40
                    (str_or (fu_reasoning fusionResult)
                       (''Built timeline with '' @ str_of_nat (length (fu_timeline fusionResult))
                        @ '' events.'')) None 2) w;
          (timeline, w2) = mkTimeline caseId (fu_timeline fusionResult) w1;
          w3 = emitProgress
                 (running ''Detecting contradictions'' 50
                    ''Analyzing testimonies and evidence for inconsistencies...'' None 3) w2;
          (contradictionResult, w4) =
            detectContradictions env timeline evidenceSummaries (witnessStatements evidence) w3;
          w5 = emitProgress
                 (running ''Detecting contradictions'' 60
                    (str_or (gc_reasoning contradictionResult)
                       ''Identified contradictions in testimonies.'') None 3) w4;
          (contradictions, w6) =
            mkContradictions caseId (gc_contradictions contradictionResult) w5;
          w7 = emitProgress
                 (running ''Analyzing shadows and reflections'' 65
                    ''Examining visual evidence for off-camera inference...'' None 4) w6;
          w8 = emitProgress
                 (running ''Generating scenarios'' 70
                    ''Creating multiple plausible explanations...'' None 5) w7;
          (scenarioResult, w9) =
            generateScenarios env (fu_worldModel fusionResult) timeline contradictions w8;
          w10 = emitProgress
                  (running ''Generating scenarios'' 80
                     (str_or (gn_reasoning scenarioResult) ''Generated plausible scenarios.'')
                     None 5) w9;
          (scenarios0, w11) = mkScenarios caseId (gn_scenarios scenarioResult) w10;
          w12 = emitProgress
                  (running ''Rendering reconstructions'' 85
                     ''Generating 4K scene reconstructions...'' None 6) w11;
          sorted = sortByLikelihood scenarios0;
          ((topScenarios, allReconstructions), w13) =
            reconstructAll env caseId (take 2 sorted) w12;
          scenarios = topScenarios @ drop 2 sorted;
          w14 = emitProgress
                  (running ''Rendering reconstructions'' 95
                     ''Completed scene reconstructions.'' None 6) w13;
          w15 = emitProgress
                  (running ''Finalizing analysis'' 98
                     ''Assembling final case analysis...'' None 7) w14;
          caseAnalysis =
            \<lparr>ca_caseId = caseId,
             ca_status = Completed,
             ca_timeline = timeline,
             ca_contradictions = contradictions,
             ca_scenarios = scenarios,
             ca_missingEvidenceSuggestions = [],
             ca_globalSummary = fu_worldModel fusionResult,
             ca_heatmap = heatmapSegments timeline contradictions,
             ca_reasoning =
               \<lparr>ar_fusion = str_or (fu_reasoning fusionResult)
                               ''Fused evidence into unified world model.'',
                ar_contradictions = str_or (gc_reasoning contradictionResult)
                                      ''Analyzed for inconsistencies.'',
                ar_scenarios = str_or (gn_reasoning scenarioResult)
                                 ''Generated plausible scenarios.''\<rparr>,
             ca_evidenceSummaries =
               map (\<lambda>es. \<lparr>es_evidenceId = ev_id (su_evidence es), es_summary = su_summary es,
                           es_tags = su_tags es, es_processed = True\<rparr>) evidenceSummaries,
             ca_reconstructions = allReconstructions\<rparr>
      in (caseAnalysis, w15))"

text \<open>
  The analysis is stored, the case marked \<^verbatim>\<open>completed\<close>, and the last event emitted.
\<close>

definition completedEvent :: AnalysisProgress where
  "completedEvent =
     \<lparr>pr_step = ''Analysis complete'', pr_progress = 100,
      pr_reasoning = Some ''Case analysis completed successfully.'',
      pr_currentItem = None, pr_status = StatusCompleted,
      pr_stepNumber = Some 7, pr_totalSteps = Some 7\<rparr>"

definition storeAnalysis :: "Env \<Rightarrow> uuid \<Rightarrow> CaseAnalysis \<Rightarrow> World \<Rightarrow> World" where
  "storeAnalysis env caseId caseAnalysis w15 =
     (let w16 = insertOrReplaceAnalysis env caseId caseAnalysis w15;
          w17 = setCaseStatus env caseId Completed w16
      in emitProgress completedEvent w17)"

definition afterFusion :: "Env \<Rightarrow> uuid \<Rightarrow> EvidenceItem list \<Rightarrow> EvidenceSummary list
    \<Rightarrow> GeminiFusionResult \<Rightarrow> World \<Rightarrow> CaseAnalysis \<times> World" where
  "afterFusion env caseId evidence evidenceSummaries fusionResult w =
     (let (caseAnalysis, w15) =
            assembleAnalysis env caseId evidence evidenceSummaries fusionResult w
      in (caseAnalysis, storeAnalysis env caseId caseAnalysis w15))"

subsection \<open>The run\<close>

text \<open>
  The \<^verbatim>\<open>try\<close> block of \<^verbatim>\<open>run\<close>: \<open>Inl\<close> carries the message of the error thrown. It
  throws when the case has no evidence, when no summary was collected, and when
  \<open>fuseEvidence\<close> throws (rethrown with the prefix \<^verbatim>\<open>Failed to fuse evidence: \<close>).
\<close>

definition collectSummaries :: "Env \<Rightarrow> uuid \<Rightarrow> EvidenceItem list \<Rightarrow> World
    \<Rightarrow> EvidenceSummary list \<times> World" where
  "collectSummaries env caseId evidence w1 =
     (let w2 = processAll env caseId (length evidence) 0 evidence w1;
          w3 = emitProgress
                 (running ''Collecting summaries'' 16
                    ''Collecting all individual evidence summaries for fusion...'' None 1) w2;
          updatedEvidence = getEvidenceByCase w3 caseId
      in collectAll env caseId updatedEvidence [] w3)"

definition fusingEvent :: "EvidenceSummary list \<Rightarrow> AnalysisProgress" where
  "fusingEvent evidenceSummaries =
     running ''Fusing evidence'' 30
       (''Combining '' @ str_of_nat (length evidenceSummaries) @
        '' evidence items into a unified world model...'') None 2"

definition preparingEvent :: AnalysisProgress where
  "preparingEvent =
     running ''Preparing evidence'' 0
       ''Collecting and processing uploaded evidence files...'' None 0"

definition runBody :: "Env \<Rightarrow> uuid \<Rightarrow> World \<Rightarrow> (string + CaseAnalysis) \<times> World" where
  "runBody env caseId w =
     (let w1 = emitProgress preparingEvent w;
          evidence = getEvidenceByCase w1 caseId
      in if length evidence = 0 then (Inl ''No evidence found for case'', w1)
         else
           (let (evidenceSummaries, w4) = collectSummaries env caseId evidence w1
            in if length evidenceSummaries = 0
               then (Inl ''No evidence items found for analysis'', w4)
               else
                 (let w5 = emitProgress (fusingEvent evidenceSummaries) w4;
                      (fused, w6) = fuseEvidence env evidenceSummaries w5
                  in case fused of
                       Inl errorMsg \<Rightarrow> (Inl (''Failed to fuse evidence: '' @ errorMsg), w6)
                     | Inr fusionResult \<Rightarrow>
                         (let (caseAnalysis, w7) =
                                afterFusion env caseId evidence evidenceSummaries fusionResult w6
                          in (Inr caseAnalysis, w7)))))"

text \<open>
  The \<^verbatim>\<open>catch\<close> block: the error event, the case status \<^verbatim>\<open>error\<close>, and the error
  rethrown.
\<close>

definition errorEvent :: "string \<Rightarrow> AnalysisProgress" where
  "errorEvent message =
     \<lparr>pr_step = ''Error'', pr_progress = 0,
      pr_reasoning = Some (''Analysis failed: '' @ message),
      pr_currentItem = None, pr_status = StatusError,
      pr_stepNumber = None, pr_totalSteps = None\<rparr>"

definition run :: "Env \<Rightarrow> uuid \<Rightarrow> World \<Rightarrow> RunOutcome \<times> World" where
  "run env caseId w =
     (case runBody env caseId w of
        (Inr caseAnalysis, w') \<Rightarrow> (RunCompleted caseAnalysis, w')
      | (Inl message, w') \<Rightarrow>
          (RunFailed message, setCaseStatus env caseId Error (emitProgress (errorEvent message) w')))"


subsection \<open>The selection as a list of indices\<close>

text \<open>
  For the proofs the loop is followed on indices: \<open>picks n m step i k\<close> lists the indices
  the loop pushes from position \<open>i\<close> on, when \<open>k\<close> elements are already in the result.
\<close>

function picks :: "nat \<Rightarrow> nat \<Rightarrow> nat \<Rightarrow> nat \<Rightarrow> nat \<Rightarrow> nat list" where
  "picks n m step i k =
     (if 0 < step \<and> i < n - 1
      then (if k < m - 1 then i # picks n m step (i + step) (Suc k)
            else picks n m step (i + step) k)
      else [])"
  by pat_completeness auto
termination
  by (relation "measure (\<lambda>(n, m, step, i, k). n - 1 - i)") auto

declare picks.simps [simp del]

definition keyIndices :: "nat \<Rightarrow> nat list" where
  "keyIndices n = 0 # picks n 15 (n div 15) (n div 15) 1 @ [n - 1]"

section \<open>Auxiliary notions for the proofs\<close>

text \<open>
  A step is quiet when it emits no progress event, leaves the tables of the cases and of
  the analyses as they are, keeps the rows of the evidence table (up to \<open>derived\<close>), and
  only moves the identifier supply forward.
\<close>

definition quiet :: "World \<Rightarrow> World \<Rightarrow> bool" where
  "quiet w w' \<longleftrightarrow>
     nextUuid w \<le> nextUuid w' \<and> emitted w' = emitted w
     \<and> st_case_analysis (db w') = st_case_analysis (db w)
     \<and> st_cases (db w') = st_cases (db w)
     \<and> map ev_id (st_evidence_items (db w')) = map ev_id (st_evidence_items (db w))
     \<and> map ev_caseId (st_evidence_items (db w')) = map ev_caseId (st_evidence_items (db w))"

text \<open>
  \<open>emits w es w'\<close>: from \<open>w\<close> to \<open>w'\<close> exactly the events \<open>es\<close> were emitted, and nothing
  else that a quiet step leaves alone was changed.
\<close>

definition emits :: "World \<Rightarrow> AnalysisProgress list \<Rightarrow> World \<Rightarrow> bool" where
  "emits w es w' \<longleftrightarrow>
     nextUuid w \<le> nextUuid w' \<and> emitted w' = emitted w @ es
     \<and> st_case_analysis (db w') = st_case_analysis (db w)
     \<and> st_cases (db w') = st_cases (db w)
     \<and> map ev_id (st_evidence_items (db w')) = map ev_id (st_evidence_items (db w))
     \<and> map ev_caseId (st_evidence_items (db w')) = map ev_caseId (st_evidence_items (db w))"

text \<open>
  Events with status \<^verbatim>\<open>running\<close> whose progress values are non-decreasing and lie
  between two bounds.
\<close>

definition runningBetween :: "nat \<Rightarrow> nat \<Rightarrow> AnalysisProgress list \<Rightarrow> bool" where
  "runningBetween lo hi es \<longleftrightarrow>
     sorted (map pr_progress es)
     \<and> (\<forall>e \<in> set es. pr_status e = StatusRunning \<and> lo \<le> pr_progress e \<and> pr_progress e \<le> hi)"

definition track :: "nat \<Rightarrow> nat \<Rightarrow> World \<Rightarrow> World \<Rightarrow> bool" where
  "track lo hi w w' \<longleftrightarrow> (\<exists>es. emits w es w' \<and> runningBetween lo hi es)"

text \<open>The identifiers of the timeline events and of the scenarios of an analysis.\<close>

definition idsOf :: "CaseAnalysis \<Rightarrow> uuid set" where
  "idsOf a = set (map tl_id (ca_timeline a)) \<union> set (map sc_id (ca_scenarios a))"

text \<open>
  The summaries handed to \<open>fuseEvidence\<close> by a run on a case with evidence, the world at
  that call, and what the call returns.
\<close>

definition atFusion :: "Env \<Rightarrow> uuid \<Rightarrow> World \<Rightarrow> EvidenceSummary list \<times> World" where
  "atFusion env caseId w =
     (let w1 = emitProgress preparingEvent w;
          (evidenceSummaries, w4) =
            collectSummaries env caseId (getEvidenceByCase w1 caseId) w1
      in (evidenceSummaries, emitProgress (fusingEvent evidenceSummaries) w4))"

definition fusionOutcome :: "Env \<Rightarrow> uuid \<Rightarrow> World \<Rightarrow> string + GeminiFusionResult" where
  "fusionOutcome env caseId w =
     (case atFusion env caseId w of
        (evidenceSummaries, w5) \<Rightarrow> fst (fuseEvidence env evidenceSummaries w5))"

text \<open>The events a step from \<open>w\<close> to \<open>w'\<close> has emitted.\<close>

definition newEvents :: "World \<Rightarrow> World \<Rightarrow> AnalysisProgress list" where
  "newEvents w w' = drop (length (emitted w)) (emitted w')"

section \<open>Sample inputs\<close>

text \<open>Frames as \<open>extractFrames\<close> builds them, one per second.\<close>

definition sampleFrames :: "nat \<Rightarrow> FrameEvidence list" where
  "sampleFrames n =
     map (\<lambda>i. \<lparr>fr_id = 100 + i, fr_parentEvidenceId = 1, fr_timeSeconds = i,
                 fr_storageUrl = ''/uploads/0/frames/'' @ str_of_nat (100 + i) @ ''.jpg'',
                 fr_derived = None\<rparr>) [0..<n]"

text \<open>
  A case with one text item that has not been processed yet, and an environment in which
  every file exists and every call succeeds; the fusion reply parses and carries an empty
  timeline.
\<close>

definition sampleItem :: EvidenceItem where
  "sampleItem = \<lparr>ev_id = 1, ev_caseId = 0, ev_type = Text,
     ev_originalFilename = ''statement.txt'', ev_storageUrl = ''/0/a.txt'',
     ev_uploadedAt = ''2026-01-01T00:00:00.000Z'', ev_derived = Some emptyDerived\<rparr>"

definition sampleWorld :: World where
  "sampleWorld =
     \<lparr>db = \<lparr>st_cases = [\<lparr>case_id = 0, case_name = ''Case'', case_status = Running,
                           case_updatedAt = ''2026-01-01T00:00:00.000Z''\<rparr>],
             st_evidence_items = [sampleItem],
             st_frame_evidence = [],
             st_case_analysis = []\<rparr>,
      nextUuid = 2, tick = 0, emitted = []\<rparr>"

definition sampleEnv :: Env where
  "sampleEnv =
     \<lparr>uploadsDir = ''./uploads'',
      pathJoin = join ''/'',
      extnameLower = (\<lambda>f. ''.wav''),
      now = (\<lambda>t. ''2026-01-02T00:00:00.000Z''),
      fs_existsSync = (\<lambda>t p. True),
      fs_readFileSync = (\<lambda>t p e. Inr ''I saw a red car at noon.''),
      ffmpeg = (\<lambda>t p. FrameFiles 1),
      gemini_summarize = (\<lambda>t e i c. Json ''{}''
         \<lparr>sj_summary = Some ''A red car was seen at noon.'', sj_tags = Some [''car''],
          sj_timeHint = None, sj_reasoning = None\<rparr>),
      gemini_transcribe = (\<lambda>t a m. Inr ''hello''),
      gemini_fuse = (\<lambda>t s. Json ''{}''
         \<lparr>fj_timeline = Some [], fj_worldModel = Some ''A street.'', fj_reasoning = None\<rparr>),
      gemini_contradictions = (\<lambda>t tml s ws. Json ''{}''
         \<lparr>cj_contradictions =
            Some (map (\<lambda>s. \<lparr>rc_description = s, rc_involvedEvidenceIds = [],
                             rc_involvedWitnesses = [], rc_severity = Low\<rparr>) ws),
          cj_reasoning = None\<rparr>),
      gemini_scenarios = (\<lambda>t wm tml cs. Json ''{}''
         \<lparr>sn_scenarios = Some [], sn_reasoning = None\<rparr>),
      gemini_image = (\<lambda>t s v. ImagePlaceholder ''https://example.org/placeholder.jpg'')\<rparr>"

text \<open>
  Variants of the sample environment: the fusion call throws; the fusion reply holds no
  JSON (one fallback event); the contradiction and the scenario call throw; the
  contradiction reply lists six contradictions.
\<close>

definition failingFusionEnv :: Env where
  "failingFusionEnv = sampleEnv\<lparr>gemini_fuse := (\<lambda>t s. CallFails ''quota exceeded'')\<rparr>"


definition failingEnrichmentEnv :: Env where
  "failingEnrichmentEnv =
     sampleEnv\<lparr>gemini_contradictions := (\<lambda>t tml s ws. CallFails ''quota exceeded''),
               gemini_scenarios := (\<lambda>t wm tml cs. CallFails ''quota exceeded'')\<rparr>"


text \<open>The sample item after its text has been read and summarised.\<close>

definition sampleDerived :: Derived where
  "sampleDerived = emptyDerived\<lparr>
     dv_summary := Some ''A red car was seen at noon.'',
     dv_tags := Some [''car''],
     dv_fullText := Some ''I saw a red car at noon.'',
     dv_charCount := Some (length ''I saw a red car at noon.''),
     dv_truncated := Some False\<rparr>"

definition processedItem :: EvidenceItem where
  "processedItem = sampleItem\<lparr>ev_derived := Some sampleDerived\<rparr>"

section \<open>Verification: key-frame selection\<close>

lemma selectKeyFrames_loop_push:
  "0 < step \<Longrightarrow> i < length frames - 1 \<Longrightarrow> length result < m - 1 \<Longrightarrow>
   selectKeyFrames_loop frames m step i result =
     selectKeyFrames_loop frames m step (i + step) (result @ [frames ! i])"
  by (subst selectKeyFrames_loop.simps) simp

lemma selectKeyFrames_loop_skip:
  "0 < step \<Longrightarrow> i < length frames - 1 \<Longrightarrow> \<not> length result < m - 1 \<Longrightarrow>
   selectKeyFrames_loop frames m step i result =
     selectKeyFrames_loop frames m step (i + step) result"
  by (subst selectKeyFrames_loop.simps) simp

lemma selectKeyFrames_loop_stop:
  "\<not> (0 < step \<and> i < length frames - 1) \<Longrightarrow>
   selectKeyFrames_loop frames m step i result = result"
  by (subst selectKeyFrames_loop.simps) auto

lemma picks_push:
  "0 < step \<Longrightarrow> i < n - 1 \<Longrightarrow> k < m - 1 \<Longrightarrow>
   picks n m step i k = i # picks n m step (i + step) (Suc k)"
  by (subst picks.simps) simp

lemma picks_skip:
  "0 < step \<Longrightarrow> i < n - 1 \<Longrightarrow> \<not> k < m - 1 \<Longrightarrow>
   picks n m step i k = picks n m step (i + step) k"
  by (subst picks.simps) simp

lemma picks_stop: "\<not> (0 < step \<and> i < n - 1) \<Longrightarrow> picks n m step i k = []"
  by (subst picks.simps) auto

lemma selectKeyFrames_loop_picks:
  "selectKeyFrames_loop frames m step i result =
     result @ map ((!) frames) (picks (length frames) m step i (length result))"
proof (induction frames m step i result rule: selectKeyFrames_loop.induct)
  case (1 frames m step i result)
  show ?case
  proof (cases "0 < step \<and> i < length frames - 1")
    case True
    note IH = "1.IH" [OF True]
    show ?thesis
    proof (cases "length result < m - 1")
      case yes: True
      with True IH show ?thesis
        by (simp add: selectKeyFrames_loop_push picks_push)
    next
      case no: False
      with True IH show ?thesis
        by (simp add: selectKeyFrames_loop_skip picks_skip)
    qed
  next
    case False
    then show ?thesis
      by (simp add: selectKeyFrames_loop_stop picks_stop)
  qed
qed

lemma picks_bounds: "j \<in> set (picks n m step i k) \<Longrightarrow> i \<le> j \<and> j < n - 1"
proof (induction n m step i k rule: picks.induct)
  case (1 n m step i k)
  show ?case
  proof (cases "0 < step \<and> i < n - 1")
    case True
    show ?thesis
    proof (cases "k < m - 1")
      case yes: True
      with "1.prems" True
      have "j = i \<or> j \<in> set (picks n m step (i + step) (Suc k))"
        by (simp add: picks_push)
      then show ?thesis
        using True "1.IH"(1) [OF True yes] by auto
    next
      case no: False
      with "1.prems" True
      have "j \<in> set (picks n m step (i + step) k)"
        by (simp add: picks_skip)
      then show ?thesis
        using True "1.IH"(2) [OF True no] by auto
    qed
  next
    case False
    with "1.prems" show ?thesis
      by (simp add: picks_stop)
  qed
qed

lemma picks_sorted: "sorted_wrt (<) (picks n m step i k)"
proof (induction n m step i k rule: picks.induct)
  case (1 n m step i k)
  show ?case
  proof (cases "0 < step \<and> i < n - 1")
    case True
    show ?thesis
    proof (cases "k < m - 1")
      case yes: True
      have "\<forall>j \<in> set (picks n m step (i + step) (Suc k)). i < j"
        using True by (auto dest!: picks_bounds)
      then show ?thesis
        using True yes "1.IH"(1) [OF True yes]
        by (simp add: picks_push)
    next
      case no: False
      then show ?thesis
        using True "1.IH"(2) [OF True no]
        by (simp add: picks_skip)
    qed
  next
    case False
    then show ?thesis by (simp add: picks_stop)
  qed
qed

lemma picks_length: "k + length (picks n m step i k) \<le> max k (m - 1)"
proof (induction n m step i k rule: picks.induct)
  case (1 n m step i k)
  show ?case
  proof (cases "0 < step \<and> i < n - 1")
    case True
    show ?thesis
    proof (cases "k < m - 1")
      case yes: True
      then show ?thesis
        using True "1.IH"(1) [OF True yes]
        by (simp add: picks_push)
    next
      case no: False
      then show ?thesis
        using True "1.IH"(2) [OF True no]
        by (simp add: picks_skip)
    qed
  next
    case False
    then show ?thesis by (simp add: picks_stop)
  qed
qed


lemma sorted_wrt_nth_indices:
  assumes "sorted_wrt P xs" and "sorted_wrt (<) idxs" and "\<forall>i \<in> set idxs. i < length xs"
  shows "sorted_wrt P (map ((!) xs) idxs)"
proof -
  have "sorted_wrt (\<lambda>i j. P (xs ! i) (xs ! j)) idxs"
    using assms(2)
  proof (rule sorted_wrt_mono_rel [rotated])
    fix i j
    assume "i \<in> set idxs" "j \<in> set idxs" "i < j"
    with assms(1,3) show "P (xs ! i) (xs ! j)"
      by (simp add: sorted_wrt_iff_nth_less)
  qed
  then show ?thesis by (simp add: sorted_wrt_map)
qed

lemma framesToAnalyze_indices:
  assumes "length frames > 30"
  shows "framesToAnalyze frames = map ((!) frames) (keyIndices (length frames))"
  using assms
  by (simp add: framesToAnalyze_def selectKeyFrames_def Let_def keyIndices_def
      selectKeyFrames_loop_picks)

lemma keyIndices_sorted:
  assumes "n > 30"
  shows "sorted_wrt (<) (keyIndices n)"
proof -
  have step: "0 < n div 15" using assms by simp
  have "\<forall>j \<in> set (picks n 15 (n div 15) (n div 15) 1). 0 < j \<and> j < n - 1"
    using step by (auto dest!: picks_bounds)
  then show ?thesis
    using assms by (auto simp: keyIndices_def sorted_wrt_append picks_sorted)
qed

lemma keyIndices_bound:
  assumes "n > 30"
  shows "\<forall>i \<in> set (keyIndices n). i < n"
  using assms by (auto simp: keyIndices_def dest!: picks_bounds)

lemma keyIndices_length: "length (keyIndices n) \<le> 15"
  using picks_length [of 1 n 15 "n div 15" "n div 15"]
  by (simp add: keyIndices_def)

text \<open>The frames \<open>extractFrames\<close> builds are strictly increasing in \<open>timeSeconds\<close>.\<close>

lemma extractedFrames_times:
  "map fr_timeSeconds (fst (extractedFrames caseId evidenceId iv index k w))
     = map (\<lambda>i. i * iv) [index..<index + k]"
proof (induction k arbitrary: index w)
  case 0
  show ?case by simp
next
  case (Suc k)
  show ?case
    using Suc.IH [of "Suc index" "snd (uuidv4 w)"]
    by (simp add: Let_def split_beta upt_conv_Cons)
qed

lemma extractFrames_sorted:
  assumes "extractFrames env videoPath caseId evidenceId 1 w = (Inr frames, w')"
  shows "sorted_wrt (<) (map fr_timeSeconds frames)"
proof -
  from assms have "\<exists>k. frames = fst (extractedFrames caseId evidenceId 1 0 k (advance w))"
    by (auto simp: extractFrames_def split: FfmpegOutcome.splits prod.splits) (metis fst_conv)
  then show ?thesis
    by (auto simp: extractedFrames_times)
qed

text \<open>
  Claim C3. When more than 30 frames were extracted, the frames chosen for per-frame
  analysis (with \<open>maxFrames = 15\<close>) contain the first and the last frame, are at most 15,
  and are strictly increasing in \<open>timeSeconds\<close> (the extracted frames being so); for 40
  frames exactly 15 are chosen, frame 0 and frame 39 among them.
\<close>

theorem framesToAnalyze_endpoints_bounded_increasing:
  assumes "length frames > 30"
    and "sorted_wrt (<) (map fr_timeSeconds frames)"
  shows "frames ! 0 \<in> set (framesToAnalyze frames)
       \<and> frames ! (length frames - 1) \<in> set (framesToAnalyze frames)
       \<and> length (framesToAnalyze frames) \<le> 15
       \<and> sorted_wrt (<) (map fr_timeSeconds (framesToAnalyze frames))
       \<and> (length frames = 40 \<longrightarrow> length (framesToAnalyze frames) = 15
              \<and> frames ! 0 \<in> set (framesToAnalyze frames)
              \<and> frames ! 39 \<in> set (framesToAnalyze frames))"
proof -
  let ?n = "length frames"
  note eq = framesToAnalyze_indices [OF assms(1)]
  have a: "frames ! 0 \<in> set (framesToAnalyze frames)"
    by (simp add: eq keyIndices_def)
  have b: "frames ! (?n - 1) \<in> set (framesToAnalyze frames)"
    by (simp add: eq keyIndices_def)
  have c: "length (framesToAnalyze frames) \<le> 15"
    by (simp add: eq keyIndices_length)
  have "sorted_wrt (\<lambda>x y. fr_timeSeconds x < fr_timeSeconds y) frames"
    using assms(2) by (simp add: sorted_wrt_map)
  then have "sorted_wrt (\<lambda>x y. fr_timeSeconds x < fr_timeSeconds y)
               (map ((!) frames) (keyIndices ?n))"
    by (rule sorted_wrt_nth_indices) (use assms(1) keyIndices_sorted keyIndices_bound in auto)
  then have d: "sorted_wrt (<) (map fr_timeSeconds (framesToAnalyze frames))"
    by (simp add: eq sorted_wrt_map)
  have e: "?n = 40 \<longrightarrow> length (framesToAnalyze frames) = 15"
    by (simp add: eq keyIndices_def picks.simps)
  from a b c d e show ?thesis by auto
qed

theorem framesToAnalyze_forty_frames_witness:
  "length (sampleFrames 40) > 30
   \<and> sorted_wrt (<) (map fr_timeSeconds (sampleFrames 40))
   \<and> length (framesToAnalyze (sampleFrames 40)) = 15
   \<and> sampleFrames 40 ! 0 \<in> set (framesToAnalyze (sampleFrames 40))
   \<and> sampleFrames 40 ! 39 \<in> set (framesToAnalyze (sampleFrames 40))"
proof -
  have h1: "length (sampleFrames 40) > 30"
    by (simp add: sampleFrames_def)
  have h2: "sorted_wrt (<) (map fr_timeSeconds (sampleFrames 40))"
    by (simp add: sampleFrames_def o_def)
  have h3: "length (sampleFrames 40) = 40"
    by (simp add: sampleFrames_def)
  show ?thesis
    using h1 h2 h3 framesToAnalyze_endpoints_bounded_increasing [OF h1 h2] by simp
qed

section \<open>Verification: heat map\<close>

lemma heatmapSegments_length: "length (heatmapSegments timeline contradictions) = 10"
  by (simp add: heatmapSegments_def Let_def segmentCount_def)


section \<open>Verification: steps that leave the run state alone\<close>

lemma quiet_refl [simp]: "quiet w w"
  by (simp add: quiet_def)

lemma quiet_trans: "quiet w w' \<Longrightarrow> quiet w' w'' \<Longrightarrow> quiet w w''"
  by (simp add: quiet_def)

lemma quiet_advance [simp]: "quiet w (advance w)"
  by (simp add: quiet_def advance_def)

lemma quiet_uuidv4: "uuidv4 w = (i, w') \<Longrightarrow> quiet w w'"
  by (auto simp: quiet_def uuidv4_def)

lemma quiet_updateEvidenceDerived [simp]: "quiet w (updateEvidenceDerived i d w)"
  by (simp add: quiet_def updateEvidenceDerived_def o_def if_distrib [of ev_id] if_distrib [of ev_caseId] cong: if_cong)

lemma quiet_insertFrame [simp]: "quiet w (insertFrame f w)"
  by (simp add: quiet_def insertFrame_def)

lemma quiet_updateFrameDerived [simp]: "quiet w (updateFrameDerived i d w)"
  by (simp add: quiet_def updateFrameDerived_def)

text \<open>Chaining: a quiet step after a quiet prefix.\<close>

lemma quiet_then_advance [simp]: "quiet w w' \<Longrightarrow> quiet w (advance w')"
  by (rule quiet_trans [OF _ quiet_advance])

lemma quiet_then_updateEvidenceDerived [simp]:
  "quiet w w' \<Longrightarrow> quiet w (updateEvidenceDerived i d w')"
  by (rule quiet_trans [OF _ quiet_updateEvidenceDerived])

lemma quiet_then_insertFrame [simp]: "quiet w w' \<Longrightarrow> quiet w (insertFrame f w')"
  by (rule quiet_trans [OF _ quiet_insertFrame])

lemma quiet_then_updateFrameDerived [simp]:
  "quiet w w' \<Longrightarrow> quiet w (updateFrameDerived i d w')"
  by (rule quiet_trans [OF _ quiet_updateFrameDerived])

lemma quiet_from_advance: "quiet (advance w) w' \<Longrightarrow> quiet w w'"
  by (rule quiet_trans [OF quiet_advance])

lemma quiet_summarizeEvidence: "summarizeEvidence env e i t w = (r, w') \<Longrightarrow> quiet w w'"
  by (auto simp: summarizeEvidence_def)

lemma quiet_transcribeAudio: "transcribeAudio env a m w = (r, w') \<Longrightarrow> quiet w w'"
  by (auto simp: transcribeAudio_def)

lemma quiet_fuseEvidence: "fuseEvidence env s w = (r, w') \<Longrightarrow> quiet w w'"
  by (auto simp: fuseEvidence_def split: if_splits)

lemma quiet_detectContradictions: "detectContradictions env tml s ws w = (r, w') \<Longrightarrow> quiet w w'"
  by (auto simp: detectContradictions_def)

lemma quiet_generateScenarios: "generateScenarios env wm tml cs w = (r, w') \<Longrightarrow> quiet w w'"
  by (auto simp: generateScenarios_def)

lemma quiet_extractedFrames:
  "extractedFrames c e iv idx k w = (fs, w') \<Longrightarrow> quiet w w'"
proof (induction k arbitrary: idx w fs w')
  case 0
  then show ?case by simp
next
  case (Suc k)
  from Suc.prems obtain i w1 rest where
    u: "uuidv4 w = (i, w1)" and r: "extractedFrames c e iv (Suc idx) k w1 = (rest, w')"
    by (auto simp: Let_def split: prod.splits)
  from quiet_uuidv4 [OF u] Suc.IH [OF r] show ?case
    by (rule quiet_trans)
qed

lemma quiet_extractFrames: "extractFrames env p c e iv w = (r, w') \<Longrightarrow> quiet w w'"
  by (auto simp: extractFrames_def split: FfmpegOutcome.splits prod.splits
      dest!: quiet_extractedFrames quiet_from_advance)

lemma quiet_analyzeVideoFrame: "analyzeVideoFrame env f e w = (r, w') \<Longrightarrow> quiet w w'"
  by (auto simp: analyzeVideoFrame_def Let_def split: if_splits sum.splits prod.splits
      dest!: quiet_summarizeEvidence quiet_from_advance)

lemma quiet_analyzeFrames: "analyzeFrames env e fs ds ts w = (r, w') \<Longrightarrow> quiet w w'"
proof (induction fs arbitrary: ds ts w)
  case Nil
  then show ?case by simp
next
  case (Cons f fs)
  from Cons.prems obtain d tags w1 where
    a: "analyzeVideoFrame env f e w = ((d, tags), w1)"
    and r: "analyzeFrames env e fs (ds @ [d]) (addTags ts tags) w1 = (r, w')"
    by (auto simp: Let_def split: prod.splits)
  from quiet_analyzeVideoFrame [OF a] Cons.IH [OF r] show ?case
    by (rule quiet_trans)
qed

lemma quiet_insertFrames: "quiet w w0 \<Longrightarrow> quiet w (foldl (\<lambda>w f. insertFrame f w) w0 fs)"
  by (induction fs arbitrary: w0) simp_all

lemma quiet_videoBody: "videoBody env e p res w = (r, w') \<Longrightarrow> quiet w w'"
proof -
  assume b: "videoBody env e p res w = (r, w')"
  obtain x w1 where x: "extractFrames env p (ev_caseId e) (ev_id e) 1 w = (x, w1)"
    by (cases "extractFrames env p (ev_caseId e) (ev_id e) 1 w")
  note q1 = quiet_extractFrames [OF x]
  show ?thesis
  proof (cases x)
    case (Inl m)
    with b x q1 show ?thesis by (simp add: videoBody_def)
  next
    case (Inr frames)
    let ?w2 = "foldl (\<lambda>w f. insertFrame f w) w1 frames"
    obtain y w3 where y: "analyzeFrames env e (framesToAnalyze frames) [] [] ?w2 = (y, w3)"
      by (cases "analyzeFrames env e (framesToAnalyze frames) [] [] ?w2")
    have "quiet w w3"
      using quiet_insertFrames [OF q1] quiet_analyzeFrames [OF y] by (rule quiet_trans)
    with b x Inr y show ?thesis
      by (auto simp: videoBody_def Let_def split: prod.splits)
  qed
qed

lemma quiet_audioBody: "audioBody env e p res w = (r, w') \<Longrightarrow> quiet w w'"
  by (auto simp: audioBody_def Let_def split: sum.splits prod.splits
      dest!: quiet_transcribeAudio quiet_from_advance)

lemma quiet_textBody: "textBody env e p res w = (r, w') \<Longrightarrow> quiet w w'"
  by (auto simp: textBody_def Let_def split: sum.splits prod.splits if_splits
      dest!: quiet_summarizeEvidence quiet_from_advance)

lemma quiet_imageBody: "imageBody env e p res w = (r, w') \<Longrightarrow> quiet w w'"
  by (auto simp: imageBody_def Let_def split: sum.splits prod.splits
      dest!: quiet_summarizeEvidence quiet_from_advance)

lemma quiet_tryBlock:
  "(\<And>r w'. body = (r, w') \<Longrightarrow> quiet w w') \<Longrightarrow> tryBlock body e pre tags res = (r, w'')
   \<Longrightarrow> quiet w w''"
  by (cases body) (auto simp: tryBlock_def split: sum.splits)

lemma quiet_processEvidence: "processEvidence env e p w = (r, w') \<Longrightarrow> quiet w w'"
proof -
  assume pe: "processEvidence env e p w = (r, w')"
  show ?thesis
  proof (cases "fs_existsSync env (tick w) p")
    case False
    with pe show ?thesis by (auto simp: processEvidence_def)
  next
    case True
    have v: "\<And>res r w'. tryBlock (videoBody env e p res (advance w)) e pre tags res' = (r, w')
      \<Longrightarrow> quiet w w'" for pre tags res'
      by (erule quiet_tryBlock [rotated]) (auto dest!: quiet_videoBody quiet_from_advance)
    have a: "\<And>res r w'. tryBlock (audioBody env e p res (advance w)) e pre tags res' = (r, w')
      \<Longrightarrow> quiet w w'" for pre tags res'
      by (erule quiet_tryBlock [rotated]) (auto dest!: quiet_audioBody quiet_from_advance)
    have t: "\<And>res r w'. tryBlock (textBody env e p res (advance w)) e pre tags res' = (r, w')
      \<Longrightarrow> quiet w w'" for pre tags res'
      by (erule quiet_tryBlock [rotated]) (auto dest!: quiet_textBody quiet_from_advance)
    have i: "\<And>res r w'. tryBlock (imageBody env e p res (advance w)) e pre tags res' = (r, w')
      \<Longrightarrow> quiet w w'" for pre tags res'
      by (erule quiet_tryBlock [rotated]) (auto dest!: quiet_imageBody quiet_from_advance)
    show ?thesis
    proof (cases "ev_type e")
      case Image
      with pe True show ?thesis
        by (auto simp: processEvidence_def Let_def split: prod.splits dest!: i)
    next
      case Video
      with pe True show ?thesis
        by (auto simp: processEvidence_def Let_def split: prod.splits dest!: v)
    next
      case Audio
      with pe True show ?thesis
        by (auto simp: processEvidence_def Let_def split: prod.splits dest!: a)
    next
      case Text
      with pe True show ?thesis
        by (auto simp: processEvidence_def Let_def split: prod.splits dest!: t)
    next
      case Document
      with pe True show ?thesis
        by (auto simp: processEvidence_def Let_def split: prod.splits dest!: t)
    qed
  qed
qed

section \<open>Verification: progress events of the stages\<close>

lemma quiet_emits: "quiet w w' \<longleftrightarrow> emits w [] w'"
  by (simp add: quiet_def emits_def)

lemma emits_trans: "emits w es w' \<Longrightarrow> emits w' es' w'' \<Longrightarrow> emits w (es @ es') w''"
  by (simp add: emits_def)

lemma emits_emitProgress [simp]: "emits w [p] (emitProgress p w)"
  by (simp add: emits_def emitProgress_def)

lemma emits_then_emitProgress: "emits w es w' \<Longrightarrow> emits w (es @ [p]) (emitProgress p w')"
  by (rule emits_trans [OF _ emits_emitProgress])

lemma emits_then_quiet: "emits w es w' \<Longrightarrow> quiet w' w'' \<Longrightarrow> emits w es w''"
  using emits_trans [of w es w' "[]" w''] by (simp add: quiet_emits)

lemma quiet_then_emits: "quiet w w' \<Longrightarrow> emits w' es w'' \<Longrightarrow> emits w es w''"
  using emits_trans [of w "[]" w' es w''] by (simp add: quiet_emits)

lemma runningBetween_Nil [simp]: "runningBetween lo hi []"
  by (simp add: runningBetween_def)

lemma runningBetween_single [simp]:
  "runningBetween lo hi [running step p reasoning item k] \<longleftrightarrow> lo \<le> p \<and> p \<le> hi"
  by (simp add: runningBetween_def running_def)

lemma runningBetween_append:
  "runningBetween a b es \<Longrightarrow> runningBetween b c es' \<Longrightarrow> a \<le> b \<Longrightarrow> b \<le> c
   \<Longrightarrow> runningBetween a c (es @ es')"
  by (fastforce simp: runningBetween_def sorted_append)

lemma runningBetween_widen:
  "runningBetween a b es \<Longrightarrow> a' \<le> a \<Longrightarrow> b \<le> b' \<Longrightarrow> runningBetween a' b' es"
  by (fastforce simp: runningBetween_def)

lemma progressOf_eq: "progressOf i n = (i * 15) div n"
proof -
  have "(real i / real n) * 15 = real (i * 15) / real n" by simp
  then have "\<lfloor>(real i / real n) * 15\<rfloor> = int ((i * 15) div n)"
    by (simp only: floor_divide_of_nat_eq)
  then show ?thesis by (simp add: progressOf_def)
qed

lemma progressOf_mono: "i \<le> j \<Longrightarrow> progressOf i n \<le> progressOf j n"
  by (simp add: progressOf_eq div_le_mono)

lemma progressOf_full: "0 < n \<Longrightarrow> progressOf n n = 15"
  by (simp add: progressOf_eq)

lemma progressOf_zero [simp]: "progressOf 0 n = 0"
  by (simp add: progressOf_eq)

lemma progressOf_le: "i \<le> n \<Longrightarrow> progressOf i n \<le> 15"
proof (cases "n = 0")
  case True
  then show ?thesis by (simp add: progressOf_eq)
next
  case False
  assume "i \<le> n"
  then have "progressOf i n \<le> progressOf n n" by (rule progressOf_mono)
  with False show ?thesis by (simp add: progressOf_full)
qed

lemma track_quiet: "track lo hi w w' \<Longrightarrow> quiet w' w'' \<Longrightarrow> track lo hi w w''"
  by (auto simp: track_def intro: emits_then_quiet)

lemma quiet_track: "quiet w w' \<Longrightarrow> track lo hi w w'"
  unfolding track_def quiet_emits by (rule exI [of _ "[]"]) simp

lemma track_emit:
  assumes "track lo hi w w'" and "pr_status p = StatusRunning"
    and "lo \<le> pr_progress p" and "pr_progress p \<le> hi"
    and "\<forall>e \<in> set (drop (length (emitted w)) (emitted w')). pr_progress e \<le> pr_progress p"
  shows "track lo hi w (emitProgress p w')"
proof -
  from assms(1) obtain es where e: "emits w es w'" and r: "runningBetween lo hi es"
    by (auto simp: track_def)
  from e have "drop (length (emitted w)) (emitted w') = es" by (simp add: emits_def)
  with assms(5) have le: "\<forall>e \<in> set es. pr_progress e \<le> pr_progress p" by simp
  have "runningBetween lo hi (es @ [p])"
    using r assms(2-4) le by (auto simp: runningBetween_def sorted_append)
  with emits_then_emitProgress [OF e] show ?thesis
    by (auto simp: track_def)
qed

lemma track_emit_top:
  assumes "track lo hi w w'" and "pr_status p = StatusRunning"
    and "pr_progress p = hi" and "lo \<le> hi"
  shows "track lo hi w (emitProgress p w')"
proof -
  from assms(1) obtain es where e: "emits w es w'" and r: "runningBetween lo hi es"
    by (auto simp: track_def)
  have "runningBetween lo hi (es @ [p])"
    using r assms(2-4) by (auto simp: runningBetween_def sorted_append)
  with emits_then_emitProgress [OF e] show ?thesis
    by (auto simp: track_def)
qed

lemma track_trans:
  assumes "track a b w w'" and "track b c w' w''" and "a \<le> b" and "b \<le> c"
  shows "track a c w w''"
proof -
  from assms(1) obtain es where 1: "emits w es w'" "runningBetween a b es"
    by (auto simp: track_def)
  from assms(2) obtain es' where 2: "emits w' es' w''" "runningBetween b c es'"
    by (auto simp: track_def)
  have "emits w (es @ es') w''" using 1(1) 2(1) by (rule emits_trans)
  moreover have "runningBetween a c (es @ es')"
    using 1(2) 2(2) assms(3,4) by (rule runningBetween_append)
  ultimately show ?thesis unfolding track_def by blast
qed

lemma track_widen: "track a b w w' \<Longrightarrow> a' \<le> a \<Longrightarrow> b \<le> b' \<Longrightarrow> track a' b' w w'"
  by (auto simp: track_def intro: runningBetween_widen)

lemma emitProgress_fields [simp]:
  "tick (emitProgress p w) = tick w" "db (emitProgress p w) = db w"
  "nextUuid (emitProgress p w) = nextUuid w" "emitted (emitProgress p w) = emitted w @ [p]"
  by (simp_all add: emitProgress_def)

lemma advance_fields [simp]:
  "tick (advance w) = Suc (tick w)" "db (advance w) = db w"
  "nextUuid (advance w) = nextUuid w" "emitted (advance w) = emitted w"
  by (simp_all add: advance_def)

lemma running_fields [simp]:
  "pr_status (running s p r c k) = StatusRunning" "pr_progress (running s p r c k) = p"
  by (simp_all add: running_def)

lemma track_emitProgress:
  "pr_status p = StatusRunning \<Longrightarrow> lo \<le> pr_progress p \<Longrightarrow> pr_progress p \<le> hi
   \<Longrightarrow> track lo hi w (emitProgress p w)"
  unfolding track_def
  by (rule exI [of _ "[p]"]) (simp add: runningBetween_def)

lemma track_processItem:
  "track (progressOf i n) (progressOf (Suc i) n) w (processItem env caseId n i item w)"
proof -
  let ?lo = "progressOf i n" and ?hi = "progressOf (Suc i) n"
  have le: "?lo \<le> ?hi" by (simp add: progressOf_mono)
  let ?p = "filePathOf env item"
  let ?start = "running ''Processing evidence'' ?lo
                    (''Starting analysis of '' @ typeName (ev_type item) @ '': '' @
                     ev_originalFilename item @ '' ('' @ str_of_nat (i + 1) @ ''/'' @
                     str_of_nat n @ '')...'')
                    (Some (ev_originalFilename item)) 0"
  let ?w1 = "emitProgress ?start w"
  have t1: "track ?lo ?hi w ?w1"
    using le by (intro track_emitProgress) simp_all
  show ?thesis
  proof (cases "fs_existsSync env (tick w) ?p")
    case False
    have "track ?lo ?hi w (advance ?w1)"
      by (rule track_quiet [OF t1 quiet_advance])
    then show ?thesis
      using False le
      by (auto simp: processItem_def Let_def intro!: track_emit)
  next
    case True
    obtain res w2 where pe: "processEvidence env item ?p (advance ?w1) = (res, w2)"
      by (cases "processEvidence env item ?p (advance ?w1)")
    have q2: "quiet ?w1 w2"
      using quiet_processEvidence [OF pe] by (rule quiet_from_advance)
    have t2: "track ?lo ?hi w w2" by (rule track_quiet [OF t1 q2])
    from True pe show ?thesis
      by (auto simp: processItem_def Let_def le
          split: option.splits intro!: track_emit_top t2)
  qed
qed

lemma track_processAll:
  "track (progressOf i n) (progressOf (i + length items) n) w
     (processAll env caseId n i items w)"
proof (induction items arbitrary: i w)
  case Nil
  show ?case by (simp add: quiet_track)
next
  case (Cons item items)
  have "track (progressOf i n) (progressOf (Suc i + length items) n) w
          (processAll env caseId n (Suc i) items (processItem env caseId n i item w))"
    by (rule track_trans [OF track_processItem Cons.IH]) (simp_all add: progressOf_mono)
  then show ?case by simp
qed

section \<open>Verification: collecting the summaries\<close>

lemma quiet_collectItem: "collectItem env caseId e w = (entry, w') \<Longrightarrow> quiet w w'"
proof -
  assume c: "collectItem env caseId e w = (entry, w')"
  let ?p = "filePathOf env e"
  obtain r w2 where pe: "processEvidence env e ?p (advance w) = (r, w2)"
    by (cases "processEvidence env e ?p (advance w)")
  have q: "quiet w w2"
    using quiet_processEvidence [OF pe] by (rule quiet_from_advance)
  from c pe q show ?thesis
    by (auto simp: collectItem_def Let_def split: if_splits prod.splits)
qed

lemma collectAll_props:
  "collectAll env caseId items acc w = (sms, w')
   \<Longrightarrow> quiet w w' \<and> length sms = length acc + length items"
proof (induction items arbitrary: acc w)
  case Nil
  then show ?case by simp
next
  case (Cons e items)
  from Cons.prems obtain entry w1 where
    c: "collectItem env caseId e w = (entry, w1)"
    and r: "collectAll env caseId items (acc @ [entry]) w1 = (sms, w')"
    by (auto simp: Let_def split: prod.splits)
  from quiet_collectItem [OF c] Cons.IH [OF r] show ?case
    by (auto intro: quiet_trans)
qed

lemma length_filter_caseId:
  "length (filter (\<lambda>e. ev_caseId e = caseId) xs)
     = length (filter (\<lambda>c. c = caseId) (map ev_caseId xs))"
  by (induction xs) simp_all

lemma emits_getEvidenceByCase_length:
  assumes "emits w es w'"
  shows "length (getEvidenceByCase w' caseId) = length (getEvidenceByCase w caseId)"
proof -
  from assms have "map ev_caseId (st_evidence_items (db w'))
      = map ev_caseId (st_evidence_items (db w))"
    by (simp add: emits_def)
  then show ?thesis
    by (simp only: getEvidenceByCase_def length_filter_caseId)
qed

lemma collectSummaries_props:
  assumes "collectSummaries env caseId evidence w = (sms, w')"
    and "length evidence = length (getEvidenceByCase w caseId)"
  shows "\<exists>es. emits w es w' \<and> runningBetween 0 16 es" and "length sms = length evidence"
proof -
  let ?w2 = "processAll env caseId (length evidence) 0 evidence w"
  let ?e16 = "running ''Collecting summaries'' 16
                ''Collecting all individual evidence summaries for fusion...'' None 1"
  let ?w3 = "emitProgress ?e16 ?w2"
  have t2: "track 0 15 w ?w2"
    using track_processAll [of 0 "length evidence" evidence w env caseId]
    by (auto intro: track_widen progressOf_le)
  then have "track 0 16 w ?w2" by (rule track_widen) simp_all
  then have t3: "track 0 16 w ?w3"
    by (rule track_emit_top) simp_all
  from assms(1) have c: "collectAll env caseId (getEvidenceByCase ?w3 caseId) [] ?w3 = (sms, w')"
    by (simp add: collectSummaries_def Let_def)
  note cp = collectAll_props [OF c]
  from t3 cp show "\<exists>es. emits w es w' \<and> runningBetween 0 16 es"
    using track_quiet [of 0 16 w ?w3 w'] by (simp add: track_def)
  from t3 obtain es where "emits w es ?w3" by (auto simp: track_def)
  from emits_getEvidenceByCase_length [OF this] cp assms(2)
  show "length sms = length evidence" by simp
qed

section \<open>Verification: assembling the analysis\<close>

lemma mkTimeline_props:
  "mkTimeline caseId ts w = (tml, w')
   \<Longrightarrow> quiet w w' \<and> set (map tl_id tml) \<subseteq> {nextUuid w..<nextUuid w'}
       \<and> map tl_label tml = map rt_label ts"
proof (induction ts arbitrary: w tml)
  case Nil
  then show ?case by simp
next
  case (Cons t ts)
  from Cons.prems obtain rest where
    r: "mkTimeline caseId ts (snd (uuidv4 w)) = (rest, w')"
    and t: "map tl_id tml = nextUuid w # map tl_id rest"
       "map tl_label tml = rt_label t # map tl_label rest"
    by (auto simp: Let_def uuidv4_def split: prod.splits)
  have q: "quiet w (snd (uuidv4 w))" by (simp add: quiet_def uuidv4_def)
  have n: "nextUuid (snd (uuidv4 w)) = Suc (nextUuid w)" by (simp add: uuidv4_def)
  from Cons.IH [OF r] have "Suc (nextUuid w) \<le> nextUuid w'"
    by (simp add: quiet_def n)
  with Cons.IH [OF r] q t n show ?case
    by (auto intro: quiet_trans)
qed

lemma mkContradictions_props:
  "mkContradictions caseId cs w = (cons, w')
   \<Longrightarrow> quiet w w' \<and> map co_description cons = map rc_description cs"
proof (induction cs arbitrary: w cons)
  case Nil
  then show ?case by simp
next
  case (Cons c cs)
  from Cons.prems obtain rest where
    r: "mkContradictions caseId cs (snd (uuidv4 w)) = (rest, w')"
    and t: "map co_description cons = rc_description c # map co_description rest"
    by (auto simp: Let_def uuidv4_def split: prod.splits)
  have q: "quiet w (snd (uuidv4 w))" by (simp add: quiet_def uuidv4_def)
  from Cons.IH [OF r] q t show ?case
    by (auto intro: quiet_trans)
qed

lemma mkScenarios_props:
  "mkScenarios caseId ss w = (scs, w')
   \<Longrightarrow> quiet w w' \<and> set (map sc_id scs) \<subseteq> {nextUuid w..<nextUuid w'}
       \<and> length scs = length ss"
proof (induction ss arbitrary: w scs)
  case Nil
  then show ?case by simp
next
  case (Cons s ss)
  from Cons.prems obtain rest where
    r: "mkScenarios caseId ss (snd (uuidv4 w)) = (rest, w')"
    and t: "map sc_id scs = nextUuid w # map sc_id rest" "length scs = Suc (length rest)"
    by (auto simp: Let_def uuidv4_def split: prod.splits)
  have q: "quiet w (snd (uuidv4 w))" by (simp add: quiet_def uuidv4_def)
  have n: "nextUuid (snd (uuidv4 w)) = Suc (nextUuid w)" by (simp add: uuidv4_def)
  from Cons.IH [OF r] have "Suc (nextUuid w) \<le> nextUuid w'"
    by (simp add: quiet_def n)
  with Cons.IH [OF r] q t n show ?case
    by (auto intro: quiet_trans)
qed

lemma quiet_generateReconstruction:
  "generateReconstruction env caseId s v ty d w = (recon, w') \<Longrightarrow> quiet w w'"
  by (auto simp: generateReconstruction_def Let_def quiet_def uuidv4_def split: prod.splits)

lemma reconstructAll_props:
  "reconstructAll env caseId scs w = ((scs', recons), w')
   \<Longrightarrow> quiet w w' \<and> map sc_id scs' = map sc_id scs"
proof (induction scs arbitrary: w scs' recons w')
  case Nil
  then show ?case by simp
next
  case (Cons s scs)
  obtain recon w1 where g: "generateReconstruction env caseId s ''from doorway''
                          ''most_likely'' (sc_narrative s) w = (recon, w1)"
    by (cases "generateReconstruction env caseId s ''from doorway''
                          ''most_likely'' (sc_narrative s) w")
  obtain rest' recons' w2 where r: "reconstructAll env caseId scs w1 = ((rest', recons'), w2)"
    by (cases "reconstructAll env caseId scs w1") auto
  from Cons.prems g r have eq: "w' = w2" "map sc_id scs' = sc_id s # map sc_id rest'"
    by (auto simp: Let_def)
  from quiet_generateReconstruction [OF g] Cons.IH [OF r] eq show ?case
    by (auto intro: quiet_trans)
qed

lemma track_next:
  assumes "track lo hi w w'" and "pr_status p = StatusRunning"
    and "hi \<le> pr_progress p" and "lo \<le> hi"
  shows "track lo (pr_progress p) w (emitProgress p w')"
proof -
  from assms(1,3) have "track lo (pr_progress p) w w'"
    by (auto intro: track_widen)
  then show ?thesis
    using assms by (intro track_emit_top) simp_all
qed

lemma assembleAnalysis_props:
  assumes "assembleAnalysis env caseId evidence sms fr w = (a, w')"
  shows "track 40 98 w w'"
    and "map tl_label (ca_timeline a) = map rt_label (fu_timeline fr)"
    and "ca_heatmap a = heatmapSegments (ca_timeline a) (ca_contradictions a)"
    and "idsOf a \<subseteq> {nextUuid w..<nextUuid w'}"
    and "ca_caseId a = caseId"
    and "\<exists>w3. map co_description (ca_contradictions a)
           = map rc_description (gc_contradictions (fst (detectContradictions env
               (ca_timeline a) sms (witnessStatements evidence) w3)))"
    and "\<exists>w8. length (ca_scenarios a)
           = length (gn_scenarios (fst (generateScenarios env (fu_worldModel fr)
               (ca_timeline a) (ca_contradictions a) w8)))"
proof -
  let ?e40 = "running ''Fusing evidence'' 40
                    (str_or (fu_reasoning fr)
                       (''Built timeline with '' @ str_of_nat (length (fu_timeline fr))
                        @ '' events.'')) None 2"
  let ?w1 = "emitProgress ?e40 w"
  obtain timeline w2 where tl: "mkTimeline caseId (fu_timeline fr) ?w1 = (timeline, w2)"
    by (cases "mkTimeline caseId (fu_timeline fr) ?w1")
  let ?e50 = "running ''Detecting contradictions'' 50
                    ''Analyzing testimonies and evidence for inconsistencies...'' None 3"
  let ?w3 = "emitProgress ?e50 w2"
  obtain cres w4 where dc:
    "detectContradictions env timeline sms (witnessStatements evidence) ?w3 = (cres, w4)"
    by (cases "detectContradictions env timeline sms (witnessStatements evidence) ?w3")
  let ?e60 = "running ''Detecting contradictions'' 60
                    (str_or (gc_reasoning cres)
                       ''Identified contradictions in testimonies.'') None 3"
  let ?w5 = "emitProgress ?e60 w4"
  obtain contradictions w6 where mc:
    "mkContradictions caseId (gc_contradictions cres) ?w5 = (contradictions, w6)"
    by (cases "mkContradictions caseId (gc_contradictions cres) ?w5")
  let ?e65 = "running ''Analyzing shadows and reflections'' 65
                    ''Examining visual evidence for off-camera inference...'' None 4"
  let ?e70 = "running ''Generating scenarios'' 70
                    ''Creating multiple plausible explanations...'' None 5"
  let ?w8 = "emitProgress ?e70 (emitProgress ?e65 w6)"
  obtain sres w9 where gs:
    "generateScenarios env (fu_worldModel fr) timeline contradictions ?w8 = (sres, w9)"
    by (cases "generateScenarios env (fu_worldModel fr) timeline contradictions ?w8")
  let ?e80 = "running ''Generating scenarios'' 80
                     (str_or (gn_reasoning sres) ''Generated plausible scenarios.'')
                     None 5"
  let ?w10 = "emitProgress ?e80 w9"
  obtain scenarios0 w11 where ms:
    "mkScenarios caseId (gn_scenarios sres) ?w10 = (scenarios0, w11)"
    by (cases "mkScenarios caseId (gn_scenarios sres) ?w10")
  let ?e85 = "running ''Rendering reconstructions'' 85
                     ''Generating 4K scene reconstructions...'' None 6"
  let ?w12 = "emitProgress ?e85 w11"
  let ?sorted = "sortByLikelihood scenarios0"
  obtain top recons w13 where ra:
    "reconstructAll env caseId (take 2 ?sorted) ?w12 = ((top, recons), w13)"
    by (cases "reconstructAll env caseId (take 2 ?sorted) ?w12") auto
  let ?e95 = "running ''Rendering reconstructions'' 95
                     ''Completed scene reconstructions.'' None 6"
  let ?e98 = "running ''Finalizing analysis'' 98
                     ''Assembling final case analysis...'' None 7"
  from assms tl dc mc gs ms ra
  have w': "w' = emitProgress ?e98 (emitProgress ?e95 w13)"
    and a_tl: "ca_timeline a = timeline"
    and a_co: "ca_contradictions a = contradictions"
    and a_sc: "ca_scenarios a = top @ drop 2 ?sorted"
    and a_hm: "ca_heatmap a = heatmapSegments timeline contradictions"
    and a_id: "ca_caseId a = caseId"
    by (auto simp: assembleAnalysis_def Let_def)
  note p_tl = mkTimeline_props [OF tl]
  note p_mc = mkContradictions_props [OF mc]
  note p_ms = mkScenarios_props [OF ms]
  note p_ra = reconstructAll_props [OF ra]
  note q_dc = quiet_detectContradictions [OF dc]
  note q_gs = quiet_generateScenarios [OF gs]
  have t1: "track 40 40 w ?w1" by (intro track_emitProgress) simp_all
  have t2: "track 40 40 w w2" using t1 p_tl by (auto intro: track_quiet)
  have t3: "track 40 50 w ?w3" using track_next [OF t2, of ?e50] by simp
  have t4: "track 40 50 w w4" using t3 q_dc by (rule track_quiet)
  have t5: "track 40 60 w ?w5" using track_next [OF t4, of ?e60] by simp
  have t6: "track 40 60 w w6" using t5 p_mc by (auto intro: track_quiet)
  have t7: "track 40 65 w (emitProgress ?e65 w6)" using track_next [OF t6, of ?e65] by simp
  have t8: "track 40 70 w ?w8" using track_next [OF t7, of ?e70] by simp
  have t9: "track 40 70 w w9" using t8 q_gs by (rule track_quiet)
  have t10: "track 40 80 w ?w10" using track_next [OF t9, of ?e80] by simp
  have t11: "track 40 80 w w11" using t10 p_ms by (auto intro: track_quiet)
  have t12: "track 40 85 w ?w12" using track_next [OF t11, of ?e85] by simp
  have t13: "track 40 85 w w13" using t12 p_ra by (auto intro: track_quiet)
  have t14: "track 40 95 w (emitProgress ?e95 w13)" using track_next [OF t13, of ?e95] by simp
  have t15: "track 40 98 w (emitProgress ?e98 (emitProgress ?e95 w13))"
    using track_next [OF t14, of ?e98] by simp
  then show "track 40 98 w w'" by (simp add: w')
  show "map tl_label (ca_timeline a) = map rt_label (fu_timeline fr)"
    using p_tl by (simp add: a_tl)
  show "ca_heatmap a = heatmapSegments (ca_timeline a) (ca_contradictions a)"
    by (simp add: a_hm a_tl a_co)
  show "ca_caseId a = caseId" by (rule a_id)
  have le1: "nextUuid w \<le> nextUuid w2" using p_tl by (simp add: quiet_def)
  have le2: "nextUuid w2 \<le> nextUuid w9"
    using q_dc p_mc q_gs by (simp add: quiet_def)
  have le3: "nextUuid w9 \<le> nextUuid w11" using p_ms by (simp add: quiet_def)
  have le4: "nextUuid w11 \<le> nextUuid w'" using p_ra by (simp add: quiet_def w')
  have "tl_id ` set timeline \<subseteq> {nextUuid w..<nextUuid w2}"
    using p_tl by simp
  moreover have "{nextUuid w..<nextUuid w2} \<subseteq> {nextUuid w..<nextUuid w'}"
    using le2 le3 le4 by simp
  ultimately have r1: "tl_id ` set (ca_timeline a) \<subseteq> {nextUuid w..<nextUuid w'}"
    unfolding a_tl by (rule subset_trans)
  have "set (map sc_id (top @ drop 2 ?sorted)) = set (map sc_id (take 2 ?sorted @ drop 2 ?sorted))"
    using p_ra by (simp del: append_take_drop_id)
  also have "\<dots> = set (map sc_id scenarios0)"
    by (simp add: sortByLikelihood_def)
  finally have s: "sc_id ` set (ca_scenarios a) = sc_id ` set scenarios0"
    by (simp add: a_sc image_Un)
  have "sc_id ` set scenarios0 \<subseteq> {nextUuid w9..<nextUuid w11}"
    using p_ms by simp
  moreover have "{nextUuid w9..<nextUuid w11} \<subseteq> {nextUuid w..<nextUuid w'}"
    using le1 le2 le4 by simp
  ultimately have r2: "sc_id ` set (ca_scenarios a) \<subseteq> {nextUuid w..<nextUuid w'}"
    unfolding s by (rule subset_trans)
  show "idsOf a \<subseteq> {nextUuid w..<nextUuid w'}"
    using r1 r2 by (simp add: idsOf_def)
  show "\<exists>w3. map co_description (ca_contradictions a)
           = map rc_description (gc_contradictions (fst (detectContradictions env
               (ca_timeline a) sms (witnessStatements evidence) w3)))"
    using p_mc dc by (intro exI [of _ ?w3]) (simp add: a_co a_tl)
  show "\<exists>w8. length (ca_scenarios a)
           = length (gn_scenarios (fst (generateScenarios env (fu_worldModel fr)
               (ca_timeline a) (ca_contradictions a) w8)))"
  proof (intro exI [of _ ?w8])
    have "length (ca_scenarios a) = length (take 2 ?sorted @ drop 2 ?sorted)"
      using p_ra map_eq_imp_length_eq [of sc_id top sc_id "take 2 ?sorted"]
      by (simp add: a_sc del: append_take_drop_id)
    also have "\<dots> = length scenarios0" by (simp add: sortByLikelihood_def)
    also have "\<dots> = length (gn_scenarios sres)"
      using p_ms by simp
    finally show "length (ca_scenarios a)
           = length (gn_scenarios (fst (generateScenarios env (fu_worldModel fr)
               (ca_timeline a) (ca_contradictions a) ?w8)))"
      using gs by (simp add: a_tl a_co)
  qed
qed

section \<open>Verification: the shape of a run\<close>

lemma getEvidenceByCase_emitProgress [simp]:
  "getEvidenceByCase (emitProgress p w) caseId = getEvidenceByCase w caseId"
  by (simp add: getEvidenceByCase_def)

lemma preparingEvent_fields [simp]:
  "pr_status preparingEvent = StatusRunning" "pr_progress preparingEvent = 0"
  by (simp_all add: preparingEvent_def)

lemma fusingEvent_fields [simp]:
  "pr_status (fusingEvent s) = StatusRunning" "pr_progress (fusingEvent s) = 30"
  by (simp_all add: fusingEvent_def)

lemma runBody_no_evidence:
  assumes "getEvidenceByCase w caseId = []"
  shows "runBody env caseId w = (Inl ''No evidence found for case'', emitProgress preparingEvent w)"
  using assms by (simp add: runBody_def Let_def)

lemma atFusion_props:
  assumes "atFusion env caseId w = (sms, w5)"
  shows "track 0 30 w w5" and "length sms = length (getEvidenceByCase w caseId)"
proof -
  let ?w1 = "emitProgress preparingEvent w"
  let ?ev = "getEvidenceByCase w caseId"
  obtain w4 where cs: "collectSummaries env caseId ?ev ?w1 = (sms, w4)"
    and w5: "w5 = emitProgress (fusingEvent sms) w4"
    using assms by (auto simp: atFusion_def Let_def split: prod.splits)
  have t1: "track 0 0 w ?w1" by (intro track_emitProgress) simp_all
  have len: "length ?ev = length (getEvidenceByCase ?w1 caseId)" by simp
  from collectSummaries_props [OF cs len]
  have t4: "track 0 16 ?w1 w4" and l: "length sms = length ?ev"
    by (simp_all add: track_def)
  have "track 0 16 w w4" by (rule track_trans [OF t1 t4]) simp_all
  from track_next [OF this, of "fusingEvent sms"]
  show "track 0 30 w w5" by (simp add: w5)
  show "length sms = length ?ev" by (rule l)
qed

lemma runBody_with_evidence:
  assumes "getEvidenceByCase w caseId \<noteq> []" and "atFusion env caseId w = (sms, w5)"
  shows "runBody env caseId w =
          (case fuseEvidence env sms w5 of
             (Inl m, w6) \<Rightarrow> (Inl (''Failed to fuse evidence: '' @ m), w6)
           | (Inr fr, w6) \<Rightarrow>
               (case afterFusion env caseId (getEvidenceByCase w caseId) sms fr w6 of
                  (a, w7) \<Rightarrow> (Inr a, w7)))"
proof -
  from atFusion_props(2) [OF assms(2)] assms(1) have ne: "sms \<noteq> []" by auto
  from assms(2) obtain w4 where
    cs: "collectSummaries env caseId (getEvidenceByCase w caseId) (emitProgress preparingEvent w)
           = (sms, w4)"
    and w5: "w5 = emitProgress (fusingEvent sms) w4"
    by (auto simp: atFusion_def Let_def split: prod.splits)
  show ?thesis
    using assms(1) ne cs
    by (simp add: runBody_def Let_def w5 split: prod.splits sum.splits)
qed

text \<open>A run that fails.\<close>

lemma setCaseStatus_fields [simp]:
  "emitted (setCaseStatus env caseId st w) = emitted w"
  "nextUuid (setCaseStatus env caseId st w) = nextUuid w"
  "st_case_analysis (db (setCaseStatus env caseId st w)) = st_case_analysis (db w)"
  "st_cases (db (setCaseStatus env caseId st w))
     = map (\<lambda>c. if case_id c = caseId
                 then c\<lparr>case_status := st, case_updatedAt := now env (tick w)\<rparr> else c)
           (st_cases (db w))"
  by (simp_all add: setCaseStatus_def)

lemma insertOrReplaceAnalysis_fields [simp]:
  "emitted (insertOrReplaceAnalysis env caseId a w) = emitted w"
  "nextUuid (insertOrReplaceAnalysis env caseId a w) = nextUuid w"
  "st_cases (db (insertOrReplaceAnalysis env caseId a w)) = st_cases (db w)"
  "st_case_analysis (db (insertOrReplaceAnalysis env caseId a w))
     = filter (\<lambda>r. row_caseId r \<noteq> caseId) (st_case_analysis (db w)) @
       [\<lparr>row_caseId = caseId, row_analysis = a, row_updatedAt = now env (tick w)\<rparr>]"
  by (simp_all add: insertOrReplaceAnalysis_def)

lemma runBody_failed:
  assumes "runBody env caseId w = (Inl m, w')"
  shows "track 0 30 w w'"
    and "getEvidenceByCase w caseId = [] \<and> m = ''No evidence found for case''
         \<or> getEvidenceByCase w caseId \<noteq> []
           \<and> (\<exists>m'. fusionOutcome env caseId w = Inl m' \<and> m = ''Failed to fuse evidence: '' @ m')"
proof -
  have "track 0 30 w w' \<and>
        (getEvidenceByCase w caseId = [] \<and> m = ''No evidence found for case''
         \<or> getEvidenceByCase w caseId \<noteq> []
           \<and> (\<exists>m'. fusionOutcome env caseId w = Inl m' \<and> m = ''Failed to fuse evidence: '' @ m'))"
  proof (cases "getEvidenceByCase w caseId = []")
    case True
    with assms have "w' = emitProgress preparingEvent w" "m = ''No evidence found for case''"
      by (simp_all add: runBody_no_evidence)
    with True show ?thesis by (auto intro!: track_emitProgress)
  next
    case False
    obtain sms w5 where af: "atFusion env caseId w = (sms, w5)"
      by (cases "atFusion env caseId w")
    obtain r w6 where fe: "fuseEvidence env sms w5 = (r, w6)"
      by (cases "fuseEvidence env sms w5")
    from runBody_with_evidence [OF False af] assms fe
    obtain m' where r: "r = Inl m'" and m: "m = ''Failed to fuse evidence: '' @ m'"
      and w': "w' = w6"
      by (cases r) (auto split: prod.splits)
    have "track 0 30 w w6"
      using atFusion_props(1) [OF af] quiet_fuseEvidence [OF fe] by (rule track_quiet)
    moreover have "fusionOutcome env caseId w = Inl m'"
      by (simp add: fusionOutcome_def af fe r)
    ultimately show ?thesis using False m w' by simp
  qed
  then show "track 0 30 w w'"
    and "getEvidenceByCase w caseId = [] \<and> m = ''No evidence found for case''
         \<or> getEvidenceByCase w caseId \<noteq> []
           \<and> (\<exists>m'. fusionOutcome env caseId w = Inl m' \<and> m = ''Failed to fuse evidence: '' @ m')"
    by simp_all
qed

text \<open>A run whose \<^verbatim>\<open>try\<close> block returns.\<close>

lemma runBody_completed:
  assumes "runBody env caseId w = (Inr a, w')"
  shows "getEvidenceByCase w caseId \<noteq> []"
    and "\<exists>sms w5 fr w6 w15.
           atFusion env caseId w = (sms, w5)
           \<and> fuseEvidence env sms w5 = (Inr fr, w6)
           \<and> fusionOutcome env caseId w = Inr fr
           \<and> assembleAnalysis env caseId (getEvidenceByCase w caseId) sms fr w6 = (a, w15)
           \<and> w' = storeAnalysis env caseId a w15
           \<and> track 0 98 w w15"
proof -
  show ne: "getEvidenceByCase w caseId \<noteq> []"
    using assms by (auto simp: runBody_no_evidence)
  obtain sms w5 where af: "atFusion env caseId w = (sms, w5)"
    by (cases "atFusion env caseId w")
  obtain r w6 where fe: "fuseEvidence env sms w5 = (r, w6)"
    by (cases "fuseEvidence env sms w5")
  from runBody_with_evidence [OF ne af] assms fe
  obtain fr where r: "r = Inr fr"
    and aft: "afterFusion env caseId (getEvidenceByCase w caseId) sms fr w6 = (a, w')"
    by (cases r) (auto split: prod.splits)
  from aft obtain w15 where
    asm: "assembleAnalysis env caseId (getEvidenceByCase w caseId) sms fr w6 = (a, w15)"
    and w': "w' = storeAnalysis env caseId a w15"
    by (auto simp: afterFusion_def Let_def split: prod.splits)
  have t6: "track 0 30 w w6"
    using atFusion_props(1) [OF af] quiet_fuseEvidence [OF fe] by (rule track_quiet)
  have "track 0 98 w w15"
    by (rule track_trans [OF track_widen [OF t6] assembleAnalysis_props(1) [OF asm]]) simp_all
  moreover have "fusionOutcome env caseId w = Inr fr"
    by (simp add: fusionOutcome_def af fe r)
  ultimately show "\<exists>sms w5 fr w6 w15.
           atFusion env caseId w = (sms, w5)
           \<and> fuseEvidence env sms w5 = (Inr fr, w6)
           \<and> fusionOutcome env caseId w = Inr fr
           \<and> assembleAnalysis env caseId (getEvidenceByCase w caseId) sms fr w6 = (a, w15)
           \<and> w' = storeAnalysis env caseId a w15
           \<and> track 0 98 w w15"
    using af fe r asm w' by blast
qed

text \<open>Which of the two it is depends on the fusion call alone.\<close>

lemma runBody_outcome:
  assumes "getEvidenceByCase w caseId \<noteq> []"
  shows "case fusionOutcome env caseId w of
           Inl m \<Rightarrow> \<exists>w'. runBody env caseId w = (Inl (''Failed to fuse evidence: '' @ m), w')
         | Inr fr \<Rightarrow> \<exists>a w'. runBody env caseId w = (Inr a, w')"
proof -
  obtain sms w5 where af: "atFusion env caseId w = (sms, w5)"
    by (cases "atFusion env caseId w")
  obtain r w6 where fe: "fuseEvidence env sms w5 = (r, w6)"
    by (cases "fuseEvidence env sms w5")
  show ?thesis
    using runBody_with_evidence [OF assms af] fe
    by (cases r) (auto simp: fusionOutcome_def af split: prod.splits)
qed

section \<open>Verification: outcomes of a run\<close>

lemma run_completed_iff:
  "run env caseId w = (RunCompleted a, w') \<longleftrightarrow> runBody env caseId w = (Inr a, w')"
  by (cases "runBody env caseId w") (auto simp: run_def split: sum.splits)

lemma run_failed_iff:
  "run env caseId w = (RunFailed m, w') \<longleftrightarrow>
     (\<exists>w1. runBody env caseId w = (Inl m, w1)
           \<and> w' = setCaseStatus env caseId Error (emitProgress (errorEvent m) w1))"
  by (cases "runBody env caseId w") (auto simp: run_def split: sum.splits)

lemma getEvidenceByCase_sampleWorld [simp]: "getEvidenceByCase sampleWorld 0 = [sampleItem]"
  by (simp add: getEvidenceByCase_def sampleWorld_def sampleItem_def)

text \<open>In an environment whose fusion reply always parses, the fusion call returns.\<close>

lemma fusionOutcome_Json:
  assumes "getEvidenceByCase w caseId \<noteq> []"
    and "\<And>t s. gemini_fuse env t s = Json text p"
  shows "fusionOutcome env caseId w =
           Inr \<lparr>fu_timeline = (case fj_timeline p of Some ts \<Rightarrow> ts | None \<Rightarrow> []),
                fu_worldModel = str_or (fj_worldModel p)
                    ''Analysis complete but world model description unavailable.'',
                fu_reasoning = Some (str_or (fj_reasoning p)
                    ''Fused evidence into unified timeline.'')\<rparr>"
proof -
  obtain sms w5 where af: "atFusion env caseId w = (sms, w5)"
    by (cases "atFusion env caseId w")
  from atFusion_props(2) [OF af] assms(1) have "sms \<noteq> []" by auto
  then show ?thesis
    by (simp add: fusionOutcome_def af fuseEvidence_def assms(2))
qed

lemma fusionOutcome_CallFails:
  assumes "getEvidenceByCase w caseId \<noteq> []"
    and "\<And>t s. gemini_fuse env t s = CallFails m"
  shows "fusionOutcome env caseId w = Inl (''Failed to fuse evidence: '' @ m)"
proof -
  obtain sms w5 where af: "atFusion env caseId w = (sms, w5)"
    by (cases "atFusion env caseId w")
  from atFusion_props(2) [OF af] assms(1) have "sms \<noteq> []" by auto
  then show ?thesis
    by (simp add: fusionOutcome_def af fuseEvidence_def assms(2))
qed

lemma run_outcome:
  assumes "getEvidenceByCase w caseId \<noteq> []"
  shows "case fusionOutcome env caseId w of
           Inl m \<Rightarrow> \<exists>w'. run env caseId w = (RunFailed (''Failed to fuse evidence: '' @ m), w')
         | Inr fr \<Rightarrow> \<exists>a w'. run env caseId w = (RunCompleted a, w')"
  using runBody_outcome [OF assms, of env]
  by (auto simp: run_completed_iff run_failed_iff split: sum.splits)

lemma sampleEnv_run_completes:
  assumes "\<And>t s. gemini_fuse env t s = Json text p"
  shows "\<exists>a w'. run env 0 sampleWorld = (RunCompleted a, w')"
proof -
  have ne: "getEvidenceByCase sampleWorld 0 \<noteq> []" by simp
  from run_outcome [OF ne, of env] fusionOutcome_Json [OF ne assms]
  show ?thesis by simp
qed

lemma status_after_update:
  "\<forall>c \<in> set (map (\<lambda>c. if case_id c = caseId
                           then c\<lparr>case_status := st, case_updatedAt := t\<rparr> else c) cs).
     case_id c = caseId \<longrightarrow> case_status c = st"
proof (intro ballI impI)
  fix c
  let ?f = "\<lambda>c. if case_id c = caseId
                           then c\<lparr>case_status := st, case_updatedAt := t\<rparr> else c"
  assume "c \<in> set (map ?f cs)" and cid: "case_id c = caseId"
  then obtain x where c: "c = ?f x"
    by (auto simp only: set_map image_iff)
  show "case_status c = st"
  proof (cases "case_id x = caseId")
    case True
    then show ?thesis by (simp add: c)
  next
    case False
    with cid c show ?thesis by simp
  qed
qed

lemma storeAnalysis_fields:
  "emitted (storeAnalysis env caseId a w) = emitted w @ [completedEvent]"
  "nextUuid (storeAnalysis env caseId a w) = nextUuid w"
  "st_case_analysis (db (storeAnalysis env caseId a w))
     = filter (\<lambda>r. row_caseId r \<noteq> caseId) (st_case_analysis (db w)) @
       [\<lparr>row_caseId = caseId, row_analysis = a, row_updatedAt = now env (tick w)\<rparr>]"
  "st_cases (db (storeAnalysis env caseId a w))
     = map (\<lambda>c. if case_id c = caseId
                 then c\<lparr>case_status := Completed, case_updatedAt := now env (Suc (tick w))\<rparr>
                 else c)
           (st_cases (db w))"
  "st_evidence_items (db (storeAnalysis env caseId a w)) = st_evidence_items (db w)"
  by (simp_all add: storeAnalysis_def Let_def)
     (simp_all add: insertOrReplaceAnalysis_def setCaseStatus_def)

lemma run_completed_props:
  assumes "run env caseId w = (RunCompleted a, w')"
  shows "getEvidenceByCase w caseId \<noteq> []"
    and "\<exists>fr. fusionOutcome env caseId w = Inr fr
              \<and> map tl_label (ca_timeline a) = map rt_label (fu_timeline fr)"
    and "ca_heatmap a = heatmapSegments (ca_timeline a) (ca_contradictions a)"
    and "idsOf a \<subseteq> {nextUuid w..<nextUuid w'}"
    and "\<exists>es. emitted w' = emitted w @ es @ [completedEvent] \<and> runningBetween 0 98 es"
    and "\<exists>t. st_case_analysis (db w')
             = filter (\<lambda>r. row_caseId r \<noteq> caseId) (st_case_analysis (db w)) @
               [\<lparr>row_caseId = caseId, row_analysis = a, row_updatedAt = t\<rparr>]"
    and "\<forall>c \<in> set (st_cases (db w')). case_id c = caseId \<longrightarrow> case_status c = Completed"
    and "\<exists>sms w3. map co_description (ca_contradictions a)
           = map rc_description (gc_contradictions (fst (detectContradictions env
               (ca_timeline a) sms (witnessStatements (getEvidenceByCase w caseId)) w3)))"
    and "\<exists>wm w8. length (ca_scenarios a)
           = length (gn_scenarios (fst (generateScenarios env wm
               (ca_timeline a) (ca_contradictions a) w8)))"
    and "map ev_caseId (st_evidence_items (db w')) = map ev_caseId (st_evidence_items (db w))"
proof -
  from assms have rb: "runBody env caseId w = (Inr a, w')"
    by (simp add: run_completed_iff)
  show "getEvidenceByCase w caseId \<noteq> []" by (rule runBody_completed(1) [OF rb])
  from runBody_completed(2) [OF rb] obtain sms w5 fr w6 w15 where
    af: "atFusion env caseId w = (sms, w5)"
    and fe: "fuseEvidence env sms w5 = (Inr fr, w6)"
    and fo: "fusionOutcome env caseId w = Inr fr"
    and asm: "assembleAnalysis env caseId (getEvidenceByCase w caseId) sms fr w6 = (a, w15)"
    and w': "w' = storeAnalysis env caseId a w15"
    and t: "track 0 98 w w15"
    by (elim exE conjE) (rule that)
  note ap = assembleAnalysis_props [OF asm]
  from t obtain es where e: "emits w es w15" and r: "runningBetween 0 98 es"
    by (auto simp: track_def)
  show "\<exists>fr. fusionOutcome env caseId w = Inr fr
              \<and> map tl_label (ca_timeline a) = map rt_label (fu_timeline fr)"
    using fo ap(2) by blast
  show "ca_heatmap a = heatmapSegments (ca_timeline a) (ca_contradictions a)"
    by (rule ap(3))
  have "nextUuid w \<le> nextUuid w6"
    using atFusion_props(1) [OF af] quiet_fuseEvidence [OF fe]
    by (auto simp: track_def emits_def quiet_def)
  with ap(4) show "idsOf a \<subseteq> {nextUuid w..<nextUuid w'}"
    by (auto simp: w' storeAnalysis_fields)
  show "\<exists>es. emitted w' = emitted w @ es @ [completedEvent] \<and> runningBetween 0 98 es"
    using e r by (auto simp: w' storeAnalysis_fields emits_def)
  show "\<exists>t. st_case_analysis (db w')
             = filter (\<lambda>r. row_caseId r \<noteq> caseId) (st_case_analysis (db w)) @
               [\<lparr>row_caseId = caseId, row_analysis = a, row_updatedAt = t\<rparr>]"
  proof (intro exI [of _ "now env (tick w15)"])
    have "st_case_analysis (db w15) = st_case_analysis (db w)"
      using e by (simp add: emits_def)
    then show "st_case_analysis (db w')
             = filter (\<lambda>r. row_caseId r \<noteq> caseId) (st_case_analysis (db w)) @
               [\<lparr>row_caseId = caseId, row_analysis = a, row_updatedAt = now env (tick w15)\<rparr>]"
      by (simp add: w' storeAnalysis_fields)
  qed
  show "\<forall>c \<in> set (st_cases (db w')). case_id c = caseId \<longrightarrow> case_status c = Completed"
    unfolding w' storeAnalysis_fields by (rule status_after_update)
  show "\<exists>sms w3. map co_description (ca_contradictions a)
           = map rc_description (gc_contradictions (fst (detectContradictions env
               (ca_timeline a) sms (witnessStatements (getEvidenceByCase w caseId)) w3)))"
    using ap(6) by blast
  show "\<exists>wm w8. length (ca_scenarios a)
           = length (gn_scenarios (fst (generateScenarios env wm
               (ca_timeline a) (ca_contradictions a) w8)))"
    using ap(7) by blast
  show "map ev_caseId (st_evidence_items (db w')) = map ev_caseId (st_evidence_items (db w))"
    using e by (simp add: w' storeAnalysis_fields emits_def)
qed

lemma atFusion_last_event:
  assumes "atFusion env caseId w = (sms, w5)"
  shows "\<exists>es. emitted w5 = emitted w @ es @ [fusingEvent sms] \<and> runningBetween 0 16 es"
proof -
  let ?w1 = "emitProgress preparingEvent w"
  let ?ev = "getEvidenceByCase w caseId"
  obtain w4 where cs: "collectSummaries env caseId ?ev ?w1 = (sms, w4)"
    and w5: "w5 = emitProgress (fusingEvent sms) w4"
    using assms by (auto simp: atFusion_def Let_def split: prod.splits)
  have t1: "track 0 0 w ?w1" by (intro track_emitProgress) simp_all
  have len: "length ?ev = length (getEvidenceByCase ?w1 caseId)" by simp
  from collectSummaries_props(1) [OF cs len]
  have t4: "track 0 16 ?w1 w4" by (simp add: track_def)
  have "track 0 16 w w4" by (rule track_trans [OF t1 t4]) simp_all
  then show ?thesis by (auto simp: track_def emits_def w5)
qed

lemma run_failed_props:
  assumes "run env caseId w = (RunFailed m, w')"
  shows "\<exists>es. emitted w' = emitted w @ es @ [errorEvent m] \<and> runningBetween 0 30 es"
    and "st_case_analysis (db w') = st_case_analysis (db w)"
    and "\<exists>t. st_cases (db w')
             = map (\<lambda>c. if case_id c = caseId
                         then c\<lparr>case_status := Error, case_updatedAt := t\<rparr> else c)
                   (st_cases (db w))"
    and "getEvidenceByCase w caseId = [] \<and> m = ''No evidence found for case''
         \<or> getEvidenceByCase w caseId \<noteq> []
           \<and> (\<exists>m'. fusionOutcome env caseId w = Inl m' \<and> m = ''Failed to fuse evidence: '' @ m')"
    and "getEvidenceByCase w caseId \<noteq> []
         \<Longrightarrow> \<exists>es sms. emitted w' = emitted w @ es @ [fusingEvent sms, errorEvent m]"
proof -
  from assms obtain w1 where rb: "runBody env caseId w = (Inl m, w1)"
    and w': "w' = setCaseStatus env caseId Error (emitProgress (errorEvent m) w1)"
    by (auto simp: run_failed_iff)
  from runBody_failed(1) [OF rb] obtain es where
    e: "emits w es w1" and r: "runningBetween 0 30 es"
    by (auto simp: track_def)
  show "\<exists>es. emitted w' = emitted w @ es @ [errorEvent m] \<and> runningBetween 0 30 es"
    using e r by (auto simp: w' emits_def)
  show "st_case_analysis (db w') = st_case_analysis (db w)"
    using e by (simp add: w' emits_def)
  show "\<exists>t. st_cases (db w')
             = map (\<lambda>c. if case_id c = caseId
                         then c\<lparr>case_status := Error, case_updatedAt := t\<rparr> else c)
                   (st_cases (db w))"
  proof (intro exI [of _ "now env (tick w1)"])
    have "st_cases (db w1) = st_cases (db w)" using e by (simp add: emits_def)
    then show "st_cases (db w')
             = map (\<lambda>c. if case_id c = caseId
                         then c\<lparr>case_status := Error, case_updatedAt := now env (tick w1)\<rparr>
                         else c)
                   (st_cases (db w))"
      by (simp add: w')
  qed
  show "getEvidenceByCase w caseId = [] \<and> m = ''No evidence found for case''
         \<or> getEvidenceByCase w caseId \<noteq> []
           \<and> (\<exists>m'. fusionOutcome env caseId w = Inl m' \<and> m = ''Failed to fuse evidence: '' @ m')"
    by (rule runBody_failed(2) [OF rb])
  show "\<exists>es sms. emitted w' = emitted w @ es @ [fusingEvent sms, errorEvent m]"
    if ne: "getEvidenceByCase w caseId \<noteq> []"
  proof -
    obtain sms w5 where af: "atFusion env caseId w = (sms, w5)"
      by (cases "atFusion env caseId w")
    obtain x w6 where fe: "fuseEvidence env sms w5 = (x, w6)"
      by (cases "fuseEvidence env sms w5")
    from runBody_with_evidence [OF ne af] rb fe have "w1 = w6"
      by (cases x) (auto split: prod.splits)
    with quiet_fuseEvidence [OF fe] have "emitted w1 = emitted w5"
      by (simp add: quiet_def)
    with atFusion_last_event [OF af] show ?thesis
      by (auto simp: w')
  qed
qed

text \<open>
  Claim C8. The heat map of the analysis of a completed run has exactly 10 segments,
  whatever the timeline is (the sample run has an empty one).
\<close>

theorem run_heatmap_has_ten_segments:
  assumes "run env caseId w = (RunCompleted a, w')"
  shows "length (ca_heatmap a) = 10"
proof -
  from assms have "runBody env caseId w = (Inr a, w')"
    by (simp add: run_completed_iff)
  from runBody_completed(2) [OF this] obtain sms fr w6 w15 where
    "assembleAnalysis env caseId (getEvidenceByCase w caseId) sms fr w6 = (a, w15)"
    by (elim exE conjE) (rule that)
  from assembleAnalysis_props(3) [OF this] show ?thesis
    by (simp add: heatmapSegments_length)
qed

theorem run_heatmap_has_ten_segments_witness:
  "\<exists>a w'. run sampleEnv 0 sampleWorld = (RunCompleted a, w') \<and> length (ca_heatmap a) = 10"
proof -
  obtain a w' where r: "run sampleEnv 0 sampleWorld = (RunCompleted a, w')"
    using sampleEnv_run_completes [of sampleEnv] by (auto simp: sampleEnv_def)
  from run_heatmap_has_ten_segments [OF r] r show ?thesis by blast
qed


lemma newEvents_append: "emitted w' = emitted w @ es \<Longrightarrow> newEvents w w' = es"
  by (simp add: newEvents_def)

lemma completedEvent_fields [simp]:
  "pr_status completedEvent = StatusCompleted" "pr_progress completedEvent = 100"
  by (simp_all add: completedEvent_def)

lemma errorEvent_fields [simp]:
  "pr_status (errorEvent m) = StatusError" "pr_progress (errorEvent m) = 0"
  by (simp_all add: errorEvent_def)

lemma runningBetween_statuses:
  "runningBetween lo hi es \<Longrightarrow> map pr_status es = replicate (length es) StatusRunning"
  by (induction es) (auto simp: runningBetween_def)






lemma failingFusionEnv_fails:
  "\<exists>w'. run failingFusionEnv 0 sampleWorld
          = (RunFailed ''Failed to fuse evidence: Failed to fuse evidence: quota exceeded'', w')"
proof -
  have ne: "getEvidenceByCase sampleWorld 0 \<noteq> []" by simp
  have "fusionOutcome failingFusionEnv 0 sampleWorld
          = Inl (''Failed to fuse evidence: '' @ ''quota exceeded'')"
    by (rule fusionOutcome_CallFails [OF ne]) (simp add: failingFusionEnv_def)
  with run_outcome [OF ne, of failingFusionEnv] show ?thesis by simp
qed





text \<open>
  Claim C4, as the code has it. The events of a run are events with status
  \<^verbatim>\<open>running\<close> and non-decreasing progress, followed by exactly one final event: after a
  completed run the event with status \<^verbatim>\<open>completed\<close> and progress 100, which keeps the
  whole sequence non-decreasing; after a failed run the event with status \<^verbatim>\<open>error\<close>,
  whose progress is 0.
\<close>

theorem run_progress_events:
  assumes "run env caseId w = (outcome, w')"
  shows "\<exists>es final. newEvents w w' = es @ [final]
           \<and> sorted (map pr_progress es)
           \<and> map pr_status es = replicate (length es) StatusRunning
           \<and> (case outcome of
                 RunCompleted a \<Rightarrow> pr_status final = StatusCompleted \<and> pr_progress final = 100
                                   \<and> sorted (map pr_progress (newEvents w w'))
               | RunFailed m \<Rightarrow> pr_status final = StatusError \<and> pr_progress final = 0)"
proof (cases outcome)
  case (RunCompleted a)
  from run_completed_props(5) [OF assms [unfolded RunCompleted]] obtain es where
    e: "emitted w' = emitted w @ es @ [completedEvent]" and rb: "runningBetween 0 98 es"
    by (elim exE conjE)
  have n: "newEvents w w' = es @ [completedEvent]" using e by (rule newEvents_append)
  have s: "sorted (map pr_progress es)" using rb by (simp add: runningBetween_def)
  have "\<forall>x \<in> set es. pr_progress x \<le> 100"
    using rb by (fastforce simp: runningBetween_def)
  with s have "sorted (map pr_progress (es @ [completedEvent]))"
    by (simp add: sorted_append)
  with n s runningBetween_statuses [OF rb] RunCompleted show ?thesis
    by (intro exI [of _ es] exI [of _ completedEvent]) simp
next
  case (RunFailed m)
  from run_failed_props(1) [OF assms [unfolded RunFailed]] obtain es where
    e: "emitted w' = emitted w @ es @ [errorEvent m]" and rb: "runningBetween 0 30 es"
    by (elim exE conjE)
  have n: "newEvents w w' = es @ [errorEvent m]" using e by (rule newEvents_append)
  have s: "sorted (map pr_progress es)" using rb by (simp add: runningBetween_def)
  with n runningBetween_statuses [OF rb] RunFailed show ?thesis
    by (intro exI [of _ es] exI [of _ "errorEvent m"]) simp
qed

theorem run_progress_events_witness:
  "\<exists>es final. newEvents sampleWorld (snd (run sampleEnv 0 sampleWorld)) = es @ [final]
     \<and> sorted (map pr_progress es)
     \<and> map pr_status es = replicate (length es) StatusRunning
     \<and> pr_status final = StatusCompleted \<and> pr_progress final = 100"
proof -
  obtain a w' where r: "run sampleEnv 0 sampleWorld = (RunCompleted a, w')"
    using sampleEnv_run_completes [of sampleEnv] by (auto simp: sampleEnv_def)
  from run_progress_events [OF r] r show ?thesis by auto
qed

text \<open>
  The claim as the specification states it fails: when the fusion call throws, the event
  \<^verbatim>\<open>Fusing evidence\<close> with progress 30 is followed by the error event with progress 0.
\<close>

theorem run_progress_decreases_on_failure:
  "\<not> sorted (map pr_progress (newEvents sampleWorld (snd (run failingFusionEnv 0 sampleWorld))))"
proof -
  let ?m = "''Failed to fuse evidence: Failed to fuse evidence: quota exceeded''"
  from failingFusionEnv_fails obtain w' where
    r: "run failingFusionEnv 0 sampleWorld = (RunFailed ?m, w')" by (elim exE)
  have ne: "getEvidenceByCase sampleWorld 0 \<noteq> []" by simp
  from run_failed_props(5) [OF r ne] obtain es sms where
    "emitted w' = emitted sampleWorld @ es @ [fusingEvent sms, errorEvent ?m]"
    by (elim exE)
  then have "newEvents sampleWorld w' = es @ [fusingEvent sms, errorEvent ?m]"
    by (rule newEvents_append)
  then show ?thesis by (simp add: r sorted_append)
qed

text \<open>
  Claim C6. A contradiction call that throws gives the empty contradiction list, a scenario
  call that throws gives the empty scenario list, and a run whose fusion call has returned
  completes whatever these two calls do; when they throw, the analysis has no
  contradictions and no scenarios.
\<close>

theorem enrichment_failures_do_not_fail_the_run:
  assumes "getEvidenceByCase w caseId \<noteq> []"
    and "fusionOutcome env caseId w = Inr fr"
  shows "(gemini_contradictions env (tick w0) tml sms ws = CallFails msg
            \<longrightarrow> gc_contradictions (fst (detectContradictions env tml sms ws w0)) = [])
       \<and> (gemini_scenarios env (tick w0) wm tml cs = CallFails msg
            \<longrightarrow> gn_scenarios (fst (generateScenarios env wm tml cs w0)) = [])
       \<and> (\<exists>a w'. run env caseId w = (RunCompleted a, w')
            \<and> ((\<forall>t tml sms ws. \<exists>m. gemini_contradictions env t tml sms ws = CallFails m)
                  \<longrightarrow> ca_contradictions a = [])
            \<and> ((\<forall>t wm tml cs. \<exists>m. gemini_scenarios env t wm tml cs = CallFails m)
                  \<longrightarrow> ca_scenarios a = []))"
proof -
  have dc: "gc_contradictions (fst (detectContradictions env tml sms ws w0)) = []"
    if "gemini_contradictions env (tick w0) tml sms ws = CallFails m" for tml sms ws w0 m
    using that by (simp add: detectContradictions_def)
  have gs: "gn_scenarios (fst (generateScenarios env wm tml cs w0)) = []"
    if "gemini_scenarios env (tick w0) wm tml cs = CallFails m" for wm tml cs w0 m
    using that by (simp add: generateScenarios_def)
  from run_outcome [OF assms(1), of env] assms(2) obtain a w' where
    r: "run env caseId w = (RunCompleted a, w')" by auto
  have c1: "ca_contradictions a = []"
    if all: "\<forall>t tml sms ws. \<exists>m. gemini_contradictions env t tml sms ws = CallFails m"
  proof -
    from run_completed_props(8) [OF r] obtain sms w3 where
      eq: "map co_description (ca_contradictions a)
           = map rc_description (gc_contradictions (fst (detectContradictions env
               (ca_timeline a) sms (witnessStatements (getEvidenceByCase w caseId)) w3)))"
      by (elim exE)
    from all obtain m where
      "gemini_contradictions env (tick w3) (ca_timeline a) sms
         (witnessStatements (getEvidenceByCase w caseId)) = CallFails m"
      by blast
    from dc [OF this] eq show ?thesis by simp
  qed
  have c2: "ca_scenarios a = []"
    if all: "\<forall>t wm tml cs. \<exists>m. gemini_scenarios env t wm tml cs = CallFails m"
  proof -
    from run_completed_props(9) [OF r] obtain wm w8 where
      eq: "length (ca_scenarios a)
           = length (gn_scenarios (fst (generateScenarios env wm
               (ca_timeline a) (ca_contradictions a) w8)))"
      by (elim exE)
    from all obtain m where
      "gemini_scenarios env (tick w8) wm (ca_timeline a) (ca_contradictions a) = CallFails m"
      by blast
    from gs [OF this] eq show ?thesis by simp
  qed
  from dc gs r c1 c2 show ?thesis by blast
qed

theorem enrichment_failures_do_not_fail_the_run_witness:
  "getEvidenceByCase sampleWorld 0 \<noteq> []
   \<and> (\<exists>a w'. run failingEnrichmentEnv 0 sampleWorld = (RunCompleted a, w')
          \<and> ca_contradictions a = [] \<and> ca_scenarios a = [])"
proof -
  have ne: "getEvidenceByCase sampleWorld 0 \<noteq> []" by simp
  have fo: "fusionOutcome failingEnrichmentEnv 0 sampleWorld
      = Inr \<lparr>fu_timeline = [], fu_worldModel = ''A street.'',
             fu_reasoning = Some ''Fused evidence into unified timeline.''\<rparr>"
    using fusionOutcome_Json [OF ne, of failingEnrichmentEnv]
    by (simp add: failingEnrichmentEnv_def sampleEnv_def)
  have c: "\<forall>t tml sms ws. \<exists>m. gemini_contradictions failingEnrichmentEnv t tml sms ws = CallFails m"
    by (simp add: failingEnrichmentEnv_def)
  have s: "\<forall>t wm tml cs. \<exists>m. gemini_scenarios failingEnrichmentEnv t wm tml cs = CallFails m"
    by (simp add: failingEnrichmentEnv_def)
  from enrichment_failures_do_not_fail_the_run [OF ne fo] c s ne show ?thesis
    by blast
qed





section \<open>Verification: the witness statements of a run\<close>

lemma db_uuidv4 [simp]: "db (snd (uuidv4 w)) = db w"
  by (simp add: uuidv4_def)

lemma db_mkTimeline: "db (snd (mkTimeline caseId ts w)) = db w"
  by (induction ts arbitrary: w) (simp_all add: Let_def split_beta)

lemma db_mkContradictions: "db (snd (mkContradictions caseId cs w)) = db w"
  by (induction cs arbitrary: w) (simp_all add: Let_def split_beta)

lemma db_mkScenarios: "db (snd (mkScenarios caseId ss w)) = db w"
  by (induction ss arbitrary: w) (simp_all add: Let_def split_beta)

lemma db_detectContradictions: "db (snd (detectContradictions env tml sms ws w)) = db w"
  by (simp add: detectContradictions_def)

lemma db_generateScenarios: "db (snd (generateScenarios env wm tml cs w)) = db w"
  by (simp add: generateScenarios_def)

lemma db_fuseEvidence: "db (snd (fuseEvidence env sms w)) = db w"
  by (simp add: fuseEvidence_def)

lemma db_generateReconstruction:
  "db (snd (generateReconstruction env caseId s v ty d w)) = db w"
  by (simp add: generateReconstruction_def Let_def split_beta)

lemma db_reconstructAll: "db (snd (reconstructAll env caseId scs w)) = db w"
  by (induction scs arbitrary: w) (simp_all add: Let_def split_beta db_generateReconstruction)

lemma db_assembleAnalysis:
  "db (snd (assembleAnalysis env caseId evidence sms fr w)) = db w"
  by (simp add: assembleAnalysis_def Let_def split_beta db_mkTimeline db_mkContradictions
      db_mkScenarios db_detectContradictions db_generateScenarios db_reconstructAll)

lemma run_completed_evidence_store:
  assumes "run env caseId w = (RunCompleted a, w')"
  shows "st_evidence_items (db w')
           = st_evidence_items (db (snd (collectSummaries env caseId (getEvidenceByCase w caseId)
                                          (emitProgress preparingEvent w))))"
proof -
  from assms have rb: "runBody env caseId w = (Inr a, w')"
    by (simp add: run_completed_iff)
  from runBody_completed(2) [OF rb] obtain sms w5 fr w6 w15 where
    af: "atFusion env caseId w = (sms, w5)"
    and fe: "fuseEvidence env sms w5 = (Inr fr, w6)"
    and asm: "assembleAnalysis env caseId (getEvidenceByCase w caseId) sms fr w6 = (a, w15)"
    and w': "w' = storeAnalysis env caseId a w15"
    by (elim exE conjE) (rule that)
  have "db w5 = db (snd (collectSummaries env caseId (getEvidenceByCase w caseId)
                                          (emitProgress preparingEvent w)))"
    using af by (auto simp: atFusion_def Let_def split: prod.splits)
  moreover have "db w6 = db w5" using db_fuseEvidence [of env sms w5] by (simp add: fe)
  moreover have "db w15 = db w6"
    using db_assembleAnalysis [of env caseId "getEvidenceByCase w caseId" sms fr w6]
    by (simp add: asm)
  ultimately show ?thesis by (simp add: w' storeAnalysis_fields)
qed

text \<open>Processing the sample item in the sample environment.\<close>

lemma sampleEnv_exists [simp]: "fs_existsSync sampleEnv t q"
  by (simp add: sampleEnv_def)

lemma sampleEnv_textBody:
  "textBody sampleEnv sampleItem p res w =
     (Inr (res\<lparr>res_summary := Some
             (''TEXT DOCUMENT: '' @ ev_originalFilename sampleItem @ nl @ nl @
              ''CONTENT SUMMARY:'' @ nl @ ''A red car was seen at noon.'' @ nl @ nl @
              ''FULL TEXT:'' @ nl @ ''I saw a red car at noon.'')\<rparr>),
      updateEvidenceDerived 1 sampleDerived (advance (advance w)))"
  by (simp add: textBody_def sampleEnv_def Let_def summarizeEvidence_def isSpace_def maxChars_def
      truncateText_def derivedOf_def sampleItem_def sampleDerived_def)

lemma sampleEnv_processEvidence:
  "snd (processEvidence sampleEnv sampleItem p w)
     = updateEvidenceDerived 1 sampleDerived (advance (advance (advance w)))"
proof -
  have ty: "ev_type sampleItem = Text" by (simp add: sampleItem_def)
  show ?thesis
    by (simp add: processEvidence_def ty Let_def tryBlock_def sampleEnv_textBody)
qed

lemma items_updateEvidenceDerived_sample:
  "st_evidence_items (db w) = [sampleItem]
   \<Longrightarrow> st_evidence_items (db (updateEvidenceDerived (Suc 0) sampleDerived w)) = [processedItem]"
  by (simp add: updateEvidenceDerived_def processedItem_def sampleItem_def)

lemma sampleEnv_processItem:
  assumes "st_evidence_items (db w) = [sampleItem]"
  shows "st_evidence_items (db (processItem sampleEnv 0 (Suc 0) 0 sampleItem w)) = [processedItem]"
proof -
  have "st_evidence_items (db (snd (processEvidence sampleEnv sampleItem p w0))) = [processedItem]"
    if "st_evidence_items (db w0) = [sampleItem]" for p w0
    using that items_updateEvidenceDerived_sample [of "advance (advance (advance w0))"]
    by (simp add: sampleEnv_processEvidence)
  then show ?thesis
    using assms by (simp add: processItem_def Let_def split_beta split: option.splits)
qed

lemma processedItem_no_retry: "\<not> needsRetry (summaryOf (Some processedItem))"
  by (simp add: needsRetry_def summaryOf_def processedItem_def sampleDerived_def)

lemma collectItem_no_retry:
  "\<not> needsRetry (summaryOf (Some e)) \<Longrightarrow> snd (collectItem env caseId e w) = w"
  by (simp add: collectItem_def Let_def split_beta)

lemma sample_collectSummaries:
  "st_evidence_items (db (snd (collectSummaries sampleEnv 0 [sampleItem]
                                 (emitProgress preparingEvent sampleWorld)))) = [processedItem]"
proof -
  let ?w1 = "emitProgress preparingEvent sampleWorld"
  let ?w2 = "processItem sampleEnv 0 (Suc 0) 0 sampleItem ?w1"
  have i1: "st_evidence_items (db ?w1) = [sampleItem]" by (simp add: sampleWorld_def)
  have i2: "st_evidence_items (db ?w2) = [processedItem]"
    by (rule sampleEnv_processItem [OF i1])
  have g: "getEvidenceByCase ?w2 0 = [processedItem]"
    by (simp add: getEvidenceByCase_def i2) (simp add: processedItem_def sampleItem_def)
  show ?thesis
    by (simp add: collectSummaries_def Let_def g split_beta
        collectItem_no_retry [OF processedItem_no_retry] i2)
qed

text \<open>
  Claim C5 (the code differs). The sample environment answers the contradiction call with
  one contradiction for each witness statement it is given. The run on the sample case,
  whose only item is a text item without a summary, completes with no contradiction, so the
  call was given no statement; yet the summary written by the processing stage of this run
  is in the store, and the witness statements of the stored evidence are that summary.
\<close>

theorem run_witnessStatements_miss_this_runs_summaries:
  "\<exists>a w'. run sampleEnv 0 sampleWorld = (RunCompleted a, w')
     \<and> ca_contradictions a = []
     \<and> witnessStatements (getEvidenceByCase w' 0) = [''A red car was seen at noon.'']"
proof -
  obtain a w' where r: "run sampleEnv 0 sampleWorld = (RunCompleted a, w')"
    using sampleEnv_run_completes [of sampleEnv] by (auto simp: sampleEnv_def)
  from run_completed_props(8) [OF r] obtain sms w3 where
    "map co_description (ca_contradictions a)
       = map rc_description (gc_contradictions (fst (detectContradictions sampleEnv
               (ca_timeline a) sms (witnessStatements (getEvidenceByCase sampleWorld 0)) w3)))"
    by (elim exE)
  then have none: "ca_contradictions a = []"
    by (simp add: detectContradictions_def sampleEnv_def witnessStatements_def
        summaryOf_def sampleItem_def emptyDerived_def)
  from run_completed_evidence_store [OF r]
  have "st_evidence_items (db w') = [processedItem]"
    by (simp add: sample_collectSummaries)
  then have "getEvidenceByCase w' 0 = [processedItem]"
    by (simp add: getEvidenceByCase_def) (simp add: processedItem_def sampleItem_def)
  then have "witnessStatements (getEvidenceByCase w' 0) = [''A red car was seen at noon.'']"
    by (simp add: witnessStatements_def summaryOf_def processedItem_def sampleItem_def
        sampleDerived_def)
  with r none show ?thesis by blast
qed
end
